theory Spec2Isabelle
  imports Main "HOL-Library.Word"
begin

section \<open>The OpenSSL installation probe\<close>

text \<open>
  \<^verbatim>\<open>tests/e2e/test_package/test_openssl.c\<close> is one \<^verbatim>\<open>main\<close> function: eleven numbered
  blocks that call into the linked library, print what they found, and \<^verbatim>\<open>return 1\<close> on
  the first required call that fails. The library is not part of the repository, so
  the value of every library call (and of the macro \<^verbatim>\<open>OPENSSL_CONF\<close>) is a field of
  the record \<open>provider\<close>; the program is a function from a provider to the sequence
  of things it does and the exit code.
\<close>

subsection \<open>What the program does: output lines and library calls\<close>

text \<open>
  Every \<^verbatim>\<open>printf\<close> of the source is one event. The line's leading glyph (check mark,
  cross, dash) is kept as a constructor, the rest of the format string as text without
  its indentation and line break, and the values printed as arguments. A numbered
  heading (\<^verbatim>\<open>"3. EVP Operations Test:"\<close>) is a \<open>Header\<close> with its number; the pictograph
  that opens the closing line of a successful run is left out.

  Library calls that change the library's state are events as well: \<open>New r ok\<close> is a
  constructor call for a handle of kind \<open>r\<close> (\<open>ok\<close> iff the handle is not \<^verbatim>\<open>NULL\<close>),
  \<open>Free r\<close> the matching destructor, \<open>Call f\<close> any other procedure. Pure lookups
  (\<^verbatim>\<open>OpenSSL_version\<close>, \<^verbatim>\<open>EVP_sha256\<close>, \<^verbatim>\<open>EVP_MD_size\<close>, \<^verbatim>\<open>EVP_get_digestbyname\<close>,
  \<^verbatim>\<open>FIPS_mode\<close>, ...) are read from the provider and leave no event.
\<close>

datatype glyph = Tick | Cross | Dash

datatype arg = AStr string | AInt int | ASize nat | AHex "8 word"

datatype resource = MD_CTX | BIO | SSL_CTX

datatype event =
    Plain string "arg list"
  | Header nat string "arg list"
  | Mark glyph string "arg list"
  | Call string
  | New resource bool
  | Free resource

subsection \<open>The library as seen by the program\<close>

datatype version_item =
    OPENSSL_VERSION | OPENSSL_VERSION_STRING | OPENSSL_VERSION_BUILD_DATE
  | OPENSSL_VERSION_COMPILER | OPENSSL_VERSION_PLATFORM | OPENSSL_VERSION_DIR

record evp_md =
  EVP_MD_size :: int
  EVP_MD_block_size :: int

text \<open>
  \<open>EVP_sha256\<close> and \<open>SSL_CTX_new\<close> are \<open>None\<close> for a \<^verbatim>\<open>NULL\<close> result; \<open>SSL_CTX_new\<close>
  carries the version text the program prints from the context's method.
  \<open>RAND_bytes\<close> is the return code with the contents of the 32-byte buffer after the
  call. \<open>EVP_MD_CTX_new\<close> is called twice (blocks 5 and 8): its argument is the number
  of the call, its value whether the handle is not \<^verbatim>\<open>NULL\<close>. \<open>OPENSSL_CONF\<close> is the
  macro the program assigns to \<^verbatim>\<open>conf_file\<close>, \<open>None\<close> for \<^verbatim>\<open>NULL\<close>.
\<close>

record provider =
  OpenSSL_version :: "version_item \<Rightarrow> string"
  SSL_library_init :: int
  SSL_load_error_strings :: int
  OpenSSL_add_all_algorithms :: int
  EVP_sha256 :: "evp_md option"
  RAND_bytes :: "int \<times> (nat \<Rightarrow> 8 word)"
  EVP_MD_CTX_new :: "nat \<Rightarrow> bool"
  BIO_new :: bool
  BIO_write :: "string \<Rightarrow> int"
  SSL_CTX_new :: "string option"
  EVP_get_digestbyname :: "string \<Rightarrow> bool"
  EVP_get_cipherbyname :: "string \<Rightarrow> bool"
  OPENSSL_CONF :: "string option"
  FIPS_mode :: int

subsection \<open>The blocks of \<^verbatim>\<open>main\<close>\<close>

text \<open>
  A block yields what it did and \<open>Some rc\<close> if it executed \<^verbatim>\<open>return rc\<close>, \<open>None\<close> if
  control falls through to the next block.
\<close>

type_synonym run = "event list \<times> int option"

definition emit :: "event list \<Rightarrow> run \<Rightarrow> run" where
  "emit es r = (es @ fst r, snd r)"

definition test1 :: "provider \<Rightarrow> run" where
  "test1 p =
    ([Header 1 ''OpenSSL Version: %s'' [AStr (OpenSSL_version p OPENSSL_VERSION)],
      Plain ''OpenSSL Version String: %s'' [AStr (OpenSSL_version p OPENSSL_VERSION_STRING)],
      Plain ''OpenSSL Build Date: %s'' [AStr (OpenSSL_version p OPENSSL_VERSION_BUILD_DATE)],
      Plain ''OpenSSL Compiler: %s'' [AStr (OpenSSL_version p OPENSSL_VERSION_COMPILER)],
      Plain ''OpenSSL Platform: %s'' [AStr (OpenSSL_version p OPENSSL_VERSION_PLATFORM)],
      Plain ''OpenSSL Directory: %s'' [AStr (OpenSSL_version p OPENSSL_VERSION_DIR)],
      Mark Tick ''Version information retrieved'' []], None)"

definition test2 :: "provider \<Rightarrow> run" where
  "test2 p =
    emit [Header 2 ''SSL Library Initialization:'' [], Call ''SSL_library_init'']
     (if SSL_library_init p = 1 then
        emit [Mark Tick ''SSL_library_init() successful'' [], Call ''SSL_load_error_strings'']
         (if SSL_load_error_strings p = 1 then
            emit [Mark Tick ''SSL_load_error_strings() successful'' [],
                  Call ''OpenSSL_add_all_algorithms'']
             (if OpenSSL_add_all_algorithms p = 1 then
                ([Mark Tick ''OpenSSL_add_all_algorithms() successful'' [], Plain '''' []], None)
              else ([Mark Cross ''OpenSSL_add_all_algorithms() failed'' []], Some 1))
          else ([Mark Cross ''SSL_load_error_strings() failed'' []], Some 1))
      else ([Mark Cross ''SSL_library_init() failed'' []], Some 1))"

definition test3 :: "provider \<Rightarrow> run" where
  "test3 p =
    emit [Header 3 ''EVP Operations Test:'' []]
     (case EVP_sha256 p of
        Some md \<Rightarrow>
          ([Mark Tick ''EVP_sha256() successful'' [],
            Mark Tick ''SHA-256 digest size: %d bytes'' [AInt (EVP_MD_size md)],
            Mark Tick ''SHA-256 block size: %d bytes'' [AInt (EVP_MD_block_size md)],
            Plain '''' []], None)
      | None \<Rightarrow> ([Mark Cross ''EVP_sha256() failed'' []], Some 1))"

definition test4 :: "provider \<Rightarrow> run" where
  "test4 p =
    emit [Header 4 ''Random Number Generation Test:'' [], Call ''RAND_bytes'']
     (if fst (RAND_bytes p) = 1 then
        ([Mark Tick ''RAND_bytes() successful'' [],
          Mark Tick ''Generated %zu random bytes'' [ASize 32],
          Mark Tick ''Sample bytes: '' []]
         @ map (\<lambda>i. Plain ''%02x'' [AHex (snd (RAND_bytes p) i)]) [0..<8]
         @ [Plain ''...'' [], Plain '''' []], None)
      else ([Mark Cross ''RAND_bytes() failed'' []], Some 1))"

definition test5 :: "provider \<Rightarrow> run" where
  "test5 p =
    emit [Header 5 ''Error Handling Test:'' [],
          Call ''ERR_load_crypto_strings'', Call ''ERR_load_SSL_strings'',
          New MD_CTX (EVP_MD_CTX_new p 0)]
     (if \<not> EVP_MD_CTX_new p 0 then
        ([Mark Tick ''Error handling working (EVP_MD_CTX_new failed as expected)'' [],
          Plain '''' []], None)
      else
        ([Free MD_CTX, Mark Tick ''EVP_MD_CTX operations successful'' [],
          Plain '''' []], None))"

definition test_data :: string where
  "test_data = ''Hello, OpenSSL!''"

definition test6 :: "provider \<Rightarrow> run" where
  "test6 p =
    emit [Header 6 ''BIO Operations Test:'' [], New BIO (BIO_new p)]
     (if BIO_new p then
        emit [Mark Tick ''BIO_new(BIO_s_mem()) successful'' [], Call ''BIO_write'']
         (let written = BIO_write p test_data in
          if 0 < written then
            ([Mark Tick ''BIO_write() successful (%d bytes)'' [AInt written],
              Free BIO, Mark Tick ''BIO_free() successful'' [], Plain '''' []], None)
          else ([Mark Cross ''BIO_write() failed'' []], Some 1))
      else ([Mark Cross ''BIO_new(BIO_s_mem()) failed'' []], Some 1))"

definition test7 :: "provider \<Rightarrow> run" where
  "test7 p =
    emit [Header 7 ''SSL Context Test:'' [], New SSL_CTX (SSL_CTX_new p \<noteq> None)]
     (case SSL_CTX_new p of
        Some version \<Rightarrow>
          ([Mark Tick ''SSL_CTX_new(TLS_client_method()) successful'' [],
            Mark Tick ''SSL context version: %s'' [AStr version],
            Free SSL_CTX, Mark Tick ''SSL_CTX_free() successful'' [], Plain '''' []], None)
      | None \<Rightarrow> ([Mark Cross ''SSL_CTX_new(TLS_client_method()) failed'' []], Some 1))"

definition test8 :: "provider \<Rightarrow> run" where
  "test8 p =
    emit [Header 8 ''Memory Management Test:'' [], New MD_CTX (EVP_MD_CTX_new p 1)]
     (if EVP_MD_CTX_new p 1 then
        ([Mark Tick ''EVP_MD_CTX_new() successful'' [],
          Free MD_CTX, Mark Tick ''EVP_MD_CTX_free() successful'' [], Plain '''' []], None)
      else ([Mark Cross ''EVP_MD_CTX_new() failed'' []], Some 1))"

definition algorithms :: "string list" where
  "algorithms =
    [''SHA256'', ''SHA512'', ''AES-256-CBC'', ''AES-256-GCM'',
     ''RSA'', ''ECDSA'', ''ECDH'', ''DH'']"

text \<open>
  The \<^verbatim>\<open>for\<close> loop of block 9 over the rest of the array, with \<^verbatim>\<open>available_count\<close>
  passed along; it yields the lines printed and the final count.
\<close>

fun algorithm_loop :: "provider \<Rightarrow> string list \<Rightarrow> int \<Rightarrow> event list \<times> int" where
  "algorithm_loop p [] available_count = ([], available_count)"
| "algorithm_loop p (a # rest) available_count =
    (if EVP_get_digestbyname p a \<or> EVP_get_cipherbyname p a then
       (let r = algorithm_loop p rest (available_count + 1)
        in (Mark Tick ''%s available'' [AStr a] # fst r, snd r))
     else
       (let r = algorithm_loop p rest available_count
        in (Mark Dash ''%s not available'' [AStr a] # fst r, snd r)))"

definition test9 :: "provider \<Rightarrow> run" where
  "test9 p =
    (let r = algorithm_loop p algorithms 0 in
     (Header 9 ''Algorithm Availability Test:'' [] # fst r
      @ [Mark Tick ''%d/%zu algorithms available'' [AInt (snd r), ASize (length algorithms)],
         Plain '''' []], None))"

definition test10 :: "provider \<Rightarrow> run" where
  "test10 p =
    ([Header 10 ''Configuration Test:'' [],
      (case OPENSSL_CONF p of
         Some conf_file \<Rightarrow> Mark Tick ''OPENSSL_CONF: %s'' [AStr conf_file]
       | None \<Rightarrow> Mark Dash ''OPENSSL_CONF not set'' []),
      (if FIPS_mode p = 1 then Mark Tick ''FIPS mode enabled'' []
       else Mark Dash ''FIPS mode disabled'' []),
      Plain '''' []], None)"

definition test11 :: "provider \<Rightarrow> run" where
  "test11 p =
    ([Header 11 ''Cleanup:'' [], Call ''EVP_cleanup'', Call ''ERR_free_strings'',
      Mark Tick ''OpenSSL cleanup completed'' []], None)"

subsection \<open>\<^verbatim>\<open>main\<close>: the blocks in order, with early return\<close>

fun seq :: "(provider \<Rightarrow> run) list \<Rightarrow> provider \<Rightarrow> run" where
  "seq [] p = ([], None)"
| "seq (t # ts) p =
    (case snd (t p) of
       Some rc \<Rightarrow> t p
     | None \<Rightarrow> emit (fst (t p)) (seq ts p))"

definition tests :: "(provider \<Rightarrow> run) list" where
  "tests = [test1, test2, test3, test4, test5, test6, test7, test8, test9, test10, test11]"

definition banner :: "event list" where
  "banner =
    [Plain ''OpenSSL Test Package - Validating OpenSSL Installation'' [],
     Plain ''======================================================'' []]"

definition all_passed :: "event list" where
  "all_passed =
    [Plain ''======================================================'' [],
     Plain ''All OpenSSL tests passed successfully!'' [],
     Plain ''OpenSSL is properly installed and functional.'' [],
     Plain ''======================================================'' []]"

text \<open>The headings of the eleven blocks, in the order of the source.\<close>

definition categories :: "(nat \<times> string) list" where
  "categories =
    [(1, ''OpenSSL Version: %s''), (2, ''SSL Library Initialization:''),
     (3, ''EVP Operations Test:''), (4, ''Random Number Generation Test:''),
     (5, ''Error Handling Test:''), (6, ''BIO Operations Test:''),
     (7, ''SSL Context Test:''), (8, ''Memory Management Test:''),
     (9, ''Algorithm Availability Test:''), (10, ''Configuration Test:''),
     (11, ''Cleanup:'')]"

text \<open>The trace of a run of the program and its exit code.\<close>

definition main :: "provider \<Rightarrow> event list \<times> int" where
  "main p =
    (let r = seq tests p in
     case snd r of
       Some rc \<Rightarrow> (banner @ fst r, rc)
     | None \<Rightarrow> (banner @ fst r @ all_passed, 0))"

subsection \<open>Reading a run: the report, the handles still held\<close>

text \<open>
  The report of a run has one result for each numbered block that was entered, in the
  order printed. A line with a check mark is a pass, with a cross a failure, with a dash
  something that is not available; a block has failed if one of its lines is a failure.
\<close>

datatype status = Pass | Fail | Skipped

fun glyph_status :: "glyph \<Rightarrow> status" where
  "glyph_status Tick = Pass"
| "glyph_status Cross = Fail"
| "glyph_status Dash = Skipped"

record check_result =
  category :: "nat \<times> string"
  entries :: "status list"
  outcome :: status

fun entries_of :: "event list \<Rightarrow> status list" where
  "entries_of [] = []"
| "entries_of (Header n t a # es) = []"
| "entries_of (Mark g t a # es) = glyph_status g # entries_of es"
| "entries_of (e # es) = entries_of es"

fun report :: "event list \<Rightarrow> check_result list" where
  "report [] = []"
| "report (Header n t a # es) =
    \<lparr>category = (n, t), entries = entries_of es,
     outcome = (if Fail \<in> set (entries_of es) then Fail else Pass)\<rparr> # report es"
| "report (e # es) = report es"

text \<open>The handles acquired and not yet released at the end of a trace.\<close>

fun live :: "event list \<Rightarrow> resource list \<Rightarrow> resource list" where
  "live [] held = held"
| "live (New r ok # es) held = live es (if ok then r # held else held)"
| "live (Free r # es) held = live es (remove1 r held)"
| "live (e # es) held = live es held"

text \<open>
  What two runs against the same library have in common: the success or failure of every
  call the program tests, not the values it only prints.
\<close>

definition indicators :: "provider \<Rightarrow> bool list" where
  "indicators p =
    [SSL_library_init p = 1, SSL_load_error_strings p = 1, OpenSSL_add_all_algorithms p = 1,
     EVP_sha256 p \<noteq> None, fst (RAND_bytes p) = 1, EVP_MD_CTX_new p 0, BIO_new p,
     0 < BIO_write p test_data, SSL_CTX_new p \<noteq> None, EVP_MD_CTX_new p 1,
     OPENSSL_CONF p \<noteq> None, FIPS_mode p = 1]
    @ map (\<lambda>a. EVP_get_digestbyname p a \<or> EVP_get_cipherbyname p a) algorithms"

text \<open>
  For each of the eleven blocks, in order, whether the calls it requires succeed: the
  conditions under which the source does not reach a \<^verbatim>\<open>return 1\<close> of that block.
  Blocks 1, 5, 9, 10 and 11 have no \<^verbatim>\<open>return\<close>. The check at position \<open>i\<close> (counted
  from 0) fails when \<open>required p ! i\<close> is false.
\<close>

definition required :: "provider \<Rightarrow> bool list" where
  "required p =
    [True,
     SSL_library_init p = 1 \<and> SSL_load_error_strings p = 1 \<and>
       OpenSSL_add_all_algorithms p = 1,
     EVP_sha256 p \<noteq> None,
     fst (RAND_bytes p) = 1,
     True,
     BIO_new p \<and> 0 < BIO_write p test_data,
     SSL_CTX_new p \<noteq> None,
     EVP_MD_CTX_new p 1,
     True, True, True]"

text \<open>The library calls of a trace, without the lines printed.\<close>

fun is_call :: "event \<Rightarrow> bool" where
  "is_call (Call f) = True"
| "is_call (New r ok) = True"
| "is_call (Free r) = True"
| "is_call e = False"

definition calls :: "event list \<Rightarrow> event list" where
  "calls es = filter is_call es"

subsection \<open>Auxiliary notions for the proofs\<close>

fun is_header :: "event \<Rightarrow> bool" where
  "is_header (Header n t a) = True"
| "is_header e = False"

fun silent :: "event \<Rightarrow> bool" where
  "silent (Header n t a) = False"
| "silent (Mark g t a) = False"
| "silent e = True"

fun is_cross :: "event \<Rightarrow> bool" where
  "is_cross (Mark Cross t a) = True"
| "is_cross e = False"

fun starts_header :: "event list \<Rightarrow> bool" where
  "starts_header [] = True"
| "starts_header (e # es) = is_header e"

text \<open>
  A well-formed block: it prints its heading first and no other heading; if it falls
  through none of its lines is a failure, and if it returns it returns 1 right after
  printing a failure.
\<close>

definition block_ok :: "run \<Rightarrow> bool" where
  "block_ok r \<longleftrightarrow>
     fst r \<noteq> [] \<and> is_header (hd (fst r)) \<and> \<not> list_ex is_header (tl (fst r)) \<and>
     (case snd r of
        None \<Rightarrow> Fail \<notin> set (entries_of (tl (fst r)))
      | Some rc \<Rightarrow> rc = 1 \<and> is_cross (last (fst r)))"

text \<open>The blocks a run enters: all up to and including the first that returns.\<close>

fun evaluated :: "(provider \<Rightarrow> run) list \<Rightarrow> provider \<Rightarrow> (provider \<Rightarrow> run) list" where
  "evaluated [] p = []"
| "evaluated (t # ts) p = (if snd (t p) = None then t # evaluated ts p else [t])"

definition available :: "provider \<Rightarrow> string \<Rightarrow> bool" where
  "available p a \<longleftrightarrow> EVP_get_digestbyname p a \<or> EVP_get_cipherbyname p a"

subsection \<open>Sample libraries\<close>

text \<open>
  A library on which every call succeeds and all eight names resolve, and variants of it
  on which one call fails.
\<close>

definition full_provider :: provider where
  "full_provider =
    \<lparr>OpenSSL_version = (\<lambda>item. ''OpenSSL 3.0.0''),
     SSL_library_init = 1, SSL_load_error_strings = 1, OpenSSL_add_all_algorithms = 1,
     EVP_sha256 = Some \<lparr>EVP_MD_size = 32, EVP_MD_block_size = 64\<rparr>,
     RAND_bytes = (1, \<lambda>i. 0),
     EVP_MD_CTX_new = (\<lambda>call. True),
     BIO_new = True, BIO_write = (\<lambda>data. int (length data)),
     SSL_CTX_new = Some ''TLS'',
     EVP_get_digestbyname = (\<lambda>name. True),
     EVP_get_cipherbyname = (\<lambda>name. True),
     OPENSSL_CONF = Some ''openssl.cnf'', FIPS_mode = 0\<rparr>"

definition no_sha256 :: provider where
  "no_sha256 = full_provider\<lparr>EVP_sha256 := None\<rparr>"

definition bio_write_fails :: provider where
  "bio_write_fails = full_provider\<lparr>BIO_write := (\<lambda>data. 0)\<rparr>"

definition other_random :: provider where
  "other_random = full_provider\<lparr>RAND_bytes := (1, \<lambda>i. 255)\<rparr>"

definition no_ssl_ctx :: provider where
  "no_ssl_ctx = full_provider\<lparr>SSL_CTX_new := None\<rparr>"

definition no_ctx :: provider where
  "no_ctx = full_provider\<lparr>EVP_MD_CTX_new := (\<lambda>call. call \<noteq> 0)\<rparr>"

definition five_of_eight :: provider where
  "five_of_eight =
    full_provider\<lparr>EVP_get_digestbyname := (\<lambda>name. name \<in> set [''SHA256'', ''SHA512'']),
                  EVP_get_cipherbyname :=
                    (\<lambda>name. name \<in> set [''AES-256-CBC'', ''AES-256-GCM'', ''DH''])\<rparr>"

section \<open>The build-cache fixture\<close>

text \<open>
  \<^verbatim>\<open>tests/fixtures/test-cache/src/math_utils.c\<close>: three functions on C \<^verbatim>\<open>int\<close>,
  modelled as 32-bit words read as two's complement (\<open>sint\<close>). C leaves signed
  overflow undefined; here \<open>+\<close> and \<open>*\<close> wrap around modulo \<open>2 ^ 32\<close>, as they do
  on the two's-complement machines the fixture is built for. The comparison
  \<^verbatim>\<open>n <= 1\<close> is the signed one, \<open>\<le>s\<close>.
\<close>

type_synonym cint = "32 word"

definition add :: "cint \<Rightarrow> cint \<Rightarrow> cint" where
  "add a b = a + b"

definition multiply :: "cint \<Rightarrow> cint \<Rightarrow> cint" where
  "multiply a b = a * b"

function fibonacci :: "cint \<Rightarrow> cint" where
  "fibonacci n = (if n \<le>s 1 then n else fibonacci (n - 1) + fibonacci (n - 2))"
  by pat_completeness auto
termination
proof (relation "measure (\<lambda>n. nat (sint n))")
  show "wf (measure (\<lambda>n::cint. nat (sint n)))" by simp
next
  fix n :: cint assume h: "\<not> n \<le>s 1"
  have b: "sint n < 2 ^ 31" using sint_lt [of n] by simp
  have a: "1 < sint n" using h by (simp add: word_sle_eq)
  have "sint (n - 1) = signed_take_bit 31 (sint n - 1)"
    by (simp add: sint_word_ariths)
  also have "\<dots> = sint n - 1"
    using a b by (intro signed_take_bit_int_eq_self) auto
  finally show "(n - 1, n) \<in> measure (\<lambda>n. nat (sint n))"
    using a by simp
next
  fix n :: cint assume h: "\<not> n \<le>s 1"
  have b: "sint n < 2 ^ 31" using sint_lt [of n] by simp
  have a: "1 < sint n" using h by (simp add: word_sle_eq)
  have "sint (n - 2) = signed_take_bit 31 (sint n - 2)"
    by (simp add: sint_word_ariths)
  also have "\<dots> = sint n - 2"
    using a b by (intro signed_take_bit_int_eq_self) auto
  finally show "(n - 2, n) \<in> measure (\<lambda>n. nat (sint n))"
    using a by simp
qed

text \<open>
  The Fibonacci sequence on the natural numbers, as the reference for \<open>fibonacci\<close>,
  and an iteration that computes it with two accumulators.
\<close>

fun fib :: "nat \<Rightarrow> nat" where
  "fib 0 = 0"
| "fib (Suc 0) = 1"
| "fib (Suc (Suc n)) = fib (Suc n) + fib n"

fun fib_iter :: "nat \<Rightarrow> int \<Rightarrow> int \<Rightarrow> int" where
  "fib_iter 0 a b = a"
| "fib_iter (Suc n) a b = fib_iter n b (a + b)"

section \<open>Properties of the probe\<close>

subsection \<open>Reports of concatenated traces\<close>

lemma entries_of_silent: "list_all silent b \<Longrightarrow> entries_of b = []"
  by (induction b rule: entries_of.induct) simp_all

lemma entries_of_starts_header: "starts_header b \<Longrightarrow> entries_of b = []"
  by (induction b rule: entries_of.induct) simp_all

lemma entries_of_append:
  "entries_of b = [] \<Longrightarrow> entries_of (a @ b) = entries_of a"
  by (induction a rule: entries_of.induct) simp_all

lemma report_silent: "list_all silent b \<Longrightarrow> report b = []"
  by (induction b rule: report.induct) simp_all

lemma report_no_header: "\<not> list_ex is_header b \<Longrightarrow> report b = []"
  by (induction b rule: report.induct) simp_all

lemma report_append_header:
  "starts_header b \<Longrightarrow> report (a @ b) = report a @ report b"
  by (induction a rule: report.induct)
     (simp_all add: entries_of_append entries_of_starts_header)

lemma report_append_silent:
  "list_all silent b \<Longrightarrow> report (a @ b) = report a"
  by (induction a rule: report.induct)
     (simp_all add: entries_of_append entries_of_silent report_silent)

lemma report_silent_append:
  "list_all silent a \<Longrightarrow> report (a @ b) = report b"
  by (induction a rule: report.induct) simp_all

lemma cross_entry:
  "\<not> list_ex is_header b \<Longrightarrow> e \<in> set b \<Longrightarrow> is_cross e \<Longrightarrow> Fail \<in> set (entries_of b)"
proof (induction b rule: entries_of.induct)
  case (3 g t a es)
  then show ?case by (cases "e = Mark g t a") (auto elim: is_cross.elims)
qed auto

lemma block_report:
  assumes "block_ok r"
  obtains c where
    "report (fst r) =
      [\<lparr>category = c, entries = entries_of (tl (fst r)),
        outcome = (if snd r = None then Pass else Fail)\<rparr>]"
proof -
  from assms obtain n t a b where f: "fst r = Header n t a # b"
    unfolding block_ok_def by (cases "fst r"; cases "hd (fst r)") auto
  from assms f have nh: "\<not> list_ex is_header b" by (simp add: block_ok_def)
  have "report (fst r) =
      [\<lparr>category = (n, t), entries = entries_of (tl (fst r)),
        outcome = (if snd r = None then Pass else Fail)\<rparr>]"
  proof (cases "snd r")
    case None
    with assms f have "Fail \<notin> set (entries_of b)" by (simp add: block_ok_def)
    with f nh None show ?thesis by (simp add: report_no_header)
  next
    case (Some rc)
    with assms f have c: "is_cross (last (Header n t a # b))" by (simp add: block_ok_def)
    then have "b \<noteq> []" by auto
    with c have "last b \<in> set b" "is_cross (last b)" by simp_all
    with nh have "Fail \<in> set (entries_of b)" by (rule cross_entry)
    with f nh Some show ?thesis by (simp add: report_no_header)
  qed
  then show thesis by (rule that)
qed

lemma block_report_hd: "block_ok r \<Longrightarrow> report (fst r) = [hd (report (fst r))]"
  by (erule block_report) simp

lemma block_outcome:
  "block_ok r \<Longrightarrow> outcome (hd (report (fst r))) = (if snd r = None then Pass else Fail)"
  by (erule block_report) simp

lemma block_entries:
  "block_ok r \<Longrightarrow> entries (hd (report (fst r))) = entries_of (tl (fst r))"
  by (erule block_report) simp


subsection \<open>The loop of block 9\<close>

lemma algorithm_loop_count:
  "snd (algorithm_loop p as c) = c + int (length (filter (available p) as))"
  by (induction as arbitrary: c) (simp_all add: available_def Let_def)

lemma algorithm_loop_events:
  "fst (algorithm_loop p as c) =
     map (\<lambda>a. if available p a then Mark Tick ''%s available'' [AStr a]
              else Mark Dash ''%s not available'' [AStr a]) as"
  by (induction as arbitrary: c) (simp_all add: available_def Let_def)

lemma entries_of_marks:
  "entries_of (map (\<lambda>a. if P a then Mark Tick (s a) (x a) else Mark Dash (t a) (y a)) as @ rest)
     = map (\<lambda>a. if P a then Pass else Skipped) as @ entries_of rest"
  by (induction as) simp_all

lemma no_header_marks:
  "\<not> list_ex is_header
       (map (\<lambda>a. if P a then Mark Tick (s a) (x a) else Mark Dash (t a) (y a)) as)"
  by (induction as) simp_all

lemma test9_trace:
  "fst (test9 p) =
     Header 9 ''Algorithm Availability Test:'' []
     # map (\<lambda>a. if available p a then Mark Tick ''%s available'' [AStr a]
                else Mark Dash ''%s not available'' [AStr a]) algorithms
     @ [Mark Tick ''%d/%zu algorithms available''
          [AInt (int (length (filter (available p) algorithms))), ASize 8],
        Plain [] []]"
  by (simp add: test9_def Let_def algorithm_loop_events algorithm_loop_count)
     (simp add: algorithms_def)

lemma test9_entries:
  "entries_of (tl (fst (test9 p))) =
     map (\<lambda>a. if available p a then Pass else Skipped) algorithms @ [Pass]"
  by (simp add: test9_trace entries_of_marks)

subsection \<open>Every block is well formed\<close>

lemma block_ok_test1: "block_ok (test1 p)"
  by (simp add: block_ok_def test1_def)

lemma block_ok_test2: "block_ok (test2 p)"
  by (simp add: block_ok_def test2_def emit_def)

lemma block_ok_test3: "block_ok (test3 p)"
  by (simp add: block_ok_def test3_def emit_def split: option.split)

lemma plain_silent: "list_all silent (map (\<lambda>i. Plain s (f i)) xs)"
  by (induction xs) simp_all

lemma silent_no_header: "list_all silent es \<Longrightarrow> \<not> list_ex is_header es"
  by (induction es) (auto elim: silent.elims)

lemma entries_of_silent_append: "list_all silent a \<Longrightarrow> entries_of (a @ b) = entries_of b"
  by (induction a rule: entries_of.induct) simp_all

lemma block_ok_test4: "block_ok (test4 p)"
  by (simp add: block_ok_def test4_def emit_def plain_silent silent_no_header
      entries_of_silent_append)

lemma block_ok_test5: "block_ok (test5 p)"
  by (simp add: block_ok_def test5_def emit_def)

lemma block_ok_test6: "block_ok (test6 p)"
  by (simp add: block_ok_def test6_def emit_def Let_def)

lemma block_ok_test7: "block_ok (test7 p)"
  by (simp add: block_ok_def test7_def emit_def split: option.split)

lemma block_ok_test8: "block_ok (test8 p)"
  by (simp add: block_ok_def test8_def emit_def)

lemma block_ok_test9: "block_ok (test9 p)"
proof -
  have "snd (test9 p) = None" by (simp add: test9_def Let_def)
  moreover have "Fail \<notin> set (entries_of (tl (fst (test9 p))))"
    by (auto simp: test9_entries)
  moreover have "\<not> list_ex is_header (tl (fst (test9 p)))"
    using no_header_marks [of "available p" "\<lambda>a. ''%s available''" "\<lambda>a. [AStr a]"
        "\<lambda>a. ''%s not available''" "\<lambda>a. [AStr a]" algorithms]
    by (simp add: test9_trace)
  ultimately show ?thesis by (simp add: block_ok_def test9_trace)
qed

lemma block_ok_test10: "block_ok (test10 p)"
  by (simp add: block_ok_def test10_def split: option.split)

lemma block_ok_test11: "block_ok (test11 p)"
  by (simp add: block_ok_def test11_def)

lemma block_ok_tests: "t \<in> set tests \<Longrightarrow> block_ok (t p)"
  by (auto simp: tests_def block_ok_test1 block_ok_test2 block_ok_test3 block_ok_test4
      block_ok_test5 block_ok_test6 block_ok_test7 block_ok_test8 block_ok_test9
      block_ok_test10 block_ok_test11)

subsection \<open>Running blocks in order\<close>

lemma seq_fst: "fst (seq ts p) = concat (map (\<lambda>t. fst (t p)) (evaluated ts p))"
  by (induction ts) (auto simp: emit_def split: option.split)

lemma seq_snd:
  "snd (seq ts p) = (if evaluated ts p = [] then None else snd (last (evaluated ts p) p))"
  by (induction ts) (auto simp: emit_def split: option.split)

lemma evaluated_subset: "set (evaluated ts p) \<subseteq> set ts"
  by (induction ts) auto

lemma evaluated_length: "length (evaluated ts p) \<le> length ts"
  by (induction ts) auto

lemma evaluated_all: "snd (seq ts p) = None \<Longrightarrow> evaluated ts p = ts"
  by (induction ts) (auto simp: emit_def split: option.splits)

lemma evaluated_pass:
  "Suc i < length (evaluated ts p) \<Longrightarrow> snd ((evaluated ts p ! i) p) = None"
proof (induction ts arbitrary: i)
  case Nil
  then show ?case by simp
next
  case (Cons t ts)
  show ?case
  proof (cases "snd (t p) = None")
    case True
    with Cons show ?thesis by (cases i) auto
  next
    case False
    with Cons.prems show ?thesis by simp
  qed
qed

lemma evaluated_cong:
  "(\<And>t. t \<in> set ts \<Longrightarrow> snd (t p) = snd (t q)) \<Longrightarrow> evaluated ts p = evaluated ts q"
  by (induction ts) auto

lemma starts_header_append:
  "starts_header a \<Longrightarrow> a \<noteq> [] \<Longrightarrow> starts_header (a @ b)"
  by (cases a) simp_all

lemma starts_header_concat:
  "(\<And>t. t \<in> set ts \<Longrightarrow> block_ok (t p)) \<Longrightarrow> starts_header (concat (map (\<lambda>t. fst (t p)) ts))"
proof (cases ts)
  case Nil
  then show ?thesis by simp
next
  case (Cons t us)
  assume "\<And>t. t \<in> set ts \<Longrightarrow> block_ok (t p)"
  with Cons have "block_ok (t p)" by simp
  then have "fst (t p) \<noteq> []" "starts_header (fst (t p))"
    by (cases "fst (t p)"; simp add: block_ok_def)+
  with Cons show ?thesis by (simp add: starts_header_append)
qed

lemma report_concat:
  "(\<And>t. t \<in> set ts \<Longrightarrow> block_ok (t p)) \<Longrightarrow>
   report (concat (map (\<lambda>t. fst (t p)) ts)) = concat (map (\<lambda>t. report (fst (t p))) ts)"
proof (induction ts)
  case Nil
  then show ?case by simp
next
  case (Cons t ts)
  have "starts_header (concat (map (\<lambda>t. fst (t p)) ts))"
    using Cons.prems by (intro starts_header_concat) simp
  then show ?case using Cons by (simp add: report_append_header)
qed

text \<open>The result of one block, as it stands in the report.\<close>

lemma report_seq:
  assumes "\<And>t. t \<in> set ts \<Longrightarrow> block_ok (t p)"
  shows "report (fst (seq ts p)) = map (\<lambda>t. hd (report (fst (t p)))) (evaluated ts p)"
proof -
  have ok: "\<And>t. t \<in> set (evaluated ts p) \<Longrightarrow> block_ok (t p)"
    using assms evaluated_subset by blast
  have "report (fst (seq ts p)) = concat (map (\<lambda>t. report (fst (t p))) (evaluated ts p))"
    using ok by (simp add: seq_fst report_concat)
  also have "\<dots> = concat (map (\<lambda>t. [hd (report (fst (t p)))]) (evaluated ts p))"
  proof -
    have "map (\<lambda>t. report (fst (t p))) (evaluated ts p)
        = map (\<lambda>t. [hd (report (fst (t p)))]) (evaluated ts p)"
      by (rule map_cong [OF refl]) (rule block_report_hd, rule ok)
    then show ?thesis by (simp only:)
  qed
  also have "\<dots> = map (\<lambda>t. hd (report (fst (t p)))) (evaluated ts p)"
    by simp
  finally show ?thesis .
qed

lemma report_main: "report (fst (main p)) = report (fst (seq tests p))"
proof -
  have b: "list_all silent banner" by (simp add: banner_def)
  have a: "list_all silent all_passed" by (simp add: all_passed_def)
  show ?thesis
  proof (cases "snd (seq tests p)")
    case None
    then have "fst (main p) = banner @ (fst (seq tests p) @ all_passed)"
      by (simp add: main_def Let_def)
    then show ?thesis
      by (simp only: report_silent_append [OF b] report_append_silent [OF a])
  next
    case (Some rc)
    then have "fst (main p) = banner @ fst (seq tests p)"
      by (simp add: main_def Let_def)
    then show ?thesis by (simp only: report_silent_append [OF b])
  qed
qed

lemma exit_main: "snd (main p) = (case snd (seq tests p) of None \<Rightarrow> 0 | Some rc \<Rightarrow> rc)"
  by (simp add: main_def Let_def split: option.split)

lemma seq_rc:
  assumes "\<And>t. t \<in> set ts \<Longrightarrow> block_ok (t p)" and "snd (seq ts p) = Some rc"
  shows "rc = 1"
proof -
  from assms(2) have ne: "evaluated ts p \<noteq> []" and l: "snd (last (evaluated ts p) p) = Some rc"
    by (auto simp: seq_snd split: if_splits)
  from ne have "last (evaluated ts p) \<in> set ts" using evaluated_subset last_in_set by blast
  then have "block_ok (last (evaluated ts p) p)" by (rule assms(1))
  with l show ?thesis by (simp add: block_ok_def)
qed

lemma seq_last_cross:
  assumes "\<And>t. t \<in> set ts \<Longrightarrow> block_ok (t p)" and "snd (seq ts p) = Some rc"
  shows "fst (seq ts p) \<noteq> [] \<and> is_cross (last (fst (seq ts p)))"
proof -
  from assms(2) have ne: "evaluated ts p \<noteq> []" and l: "snd (last (evaluated ts p) p) = Some rc"
    by (auto simp: seq_snd split: if_splits)
  from ne have "last (evaluated ts p) \<in> set ts" using evaluated_subset last_in_set by blast
  then have "block_ok (last (evaluated ts p) p)" by (rule assms(1))
  with l have x: "fst (last (evaluated ts p) p) \<noteq> []"
    "is_cross (last (fst (last (evaluated ts p) p)))"
    by (simp_all add: block_ok_def)
  from ne obtain us u where e: "evaluated ts p = us @ [u]" by (metis rev_exhaust)
  with x show ?thesis by (simp add: seq_fst)
qed

subsection \<open>Sample runs\<close>

lemma upt_8: "[0..<8] = [0, 1, 2, 3, 4, 5, 6, 7]"
  by code_simp

lemmas block_defs =
  test1_def test2_def test3_def test4_def test5_def test6_def test7_def test8_def
  test9_def test10_def test11_def emit_def test_data_def algorithms_def Let_def

lemmas main_defs = upt_8 main_def tests_def banner_def all_passed_def block_defs

lemma run_no_sha256:
  "snd (main no_sha256) = 1"
  "report (fst (main no_sha256)) =
    [\<lparr>category = (1, ''OpenSSL Version: %s''), entries = [Pass], outcome = Pass\<rparr>,
     \<lparr>category = (2, ''SSL Library Initialization:''), entries = [Pass, Pass, Pass],
      outcome = Pass\<rparr>,
     \<lparr>category = (3, ''EVP Operations Test:''), entries = [Fail], outcome = Fail\<rparr>]"
  "last (fst (main no_sha256)) = Mark Cross ''EVP_sha256() failed'' []"
  by (simp_all add: main_defs no_sha256_def full_provider_def)

lemma run_five_of_eight:
  "snd (main five_of_eight) = 0"
  "map outcome (report (fst (main five_of_eight))) =
     [Pass, Pass, Pass, Pass, Pass, Pass, Pass, Pass, Pass, Pass, Pass]"
  "entries (report (fst (main five_of_eight)) ! 8) =
     [Pass, Pass, Pass, Pass, Skipped, Skipped, Skipped, Pass, Pass]"
  by (simp_all add: main_defs five_of_eight_def full_provider_def)

lemma run_bio_write_fails:
  "snd (main bio_write_fails) = 1"
  "live (fst (main bio_write_fails)) [] = [BIO]"
  "count_list (fst (main bio_write_fails)) (Call ''EVP_cleanup'') = 0"
  by (simp_all add: main_defs bio_write_fails_def full_provider_def)

subsection \<open>Fail-fast and the exit code\<close>

lemma evaluated_take: "evaluated ts p = take (length (evaluated ts p)) ts"
  by (induction ts) auto

lemma category_test9: "category (hd (report (fst (test9 p)))) = (9, ''Algorithm Availability Test:'')"
  by (simp add: test9_trace)

lemma categories_tests:
  "map (\<lambda>t. category (hd (report (fst (t p))))) tests = categories"
  by (simp add: tests_def categories_def category_test9)
     (simp add: test1_def test2_def test3_def test4_def test5_def test6_def test7_def
        test8_def test10_def test11_def emit_def)

lemma report_main_blocks:
  "report (fst (main p)) = map (\<lambda>t. hd (report (fst (t p)))) (evaluated tests p)"
  by (simp add: report_main report_seq block_ok_tests)

lemma categories_main:
  "map category (report (fst (main p))) = take (length (evaluated tests p)) categories"
proof -
  have "map category (report (fst (main p)))
      = map (\<lambda>t. category (hd (report (fst (t p))))) (evaluated tests p)"
    by (simp add: report_main_blocks)
  also have "\<dots> = map (\<lambda>t. category (hd (report (fst (t p)))))
                     (take (length (evaluated tests p)) tests)"
    using evaluated_take [of tests p] by simp
  also have "\<dots> = take (length (evaluated tests p)) categories"
    by (simp only: take_map [symmetric] categories_tests)
  finally show ?thesis .
qed

lemma outcome_main:
  assumes "i < length (evaluated tests p)"
  shows "outcome (report (fst (main p)) ! i)
       = (if snd ((evaluated tests p ! i) p) = None then Pass else Fail)"
proof -
  from assms have "evaluated tests p ! i \<in> set tests"
    using evaluated_subset nth_mem by blast
  then have "block_ok ((evaluated tests p ! i) p)" by (rule block_ok_tests)
  then show ?thesis using assms by (simp add: report_main_blocks block_outcome)
qed

text \<open>
  A failure in the report is its last result: the results before it are passes, the
  program stopped right after printing the failure, and the exit code is 1.
\<close>

lemma fail_position:
  assumes "i < length (report (fst (main p)))"
    and "outcome (report (fst (main p)) ! i) = Fail"
  shows "length (report (fst (main p))) = i + 1 \<and>
         map category (report (fst (main p))) = take (i + 1) categories \<and>
         (\<forall>j<i. outcome (report (fst (main p)) ! j) = Pass) \<and>
         is_cross (last (fst (main p))) \<and>
         snd (main p) = 1"
proof -
  let ?ev = "evaluated tests p"
  have len: "length (report (fst (main p))) = length ?ev"
    by (simp add: report_main_blocks)
  with assms(1) have i: "i < length ?ev" by simp
  from assms(2) i have f: "snd ((?ev ! i) p) \<noteq> None"
    by (simp add: outcome_main split: if_splits)
  have "\<not> Suc i < length ?ev"
  proof
    assume "Suc i < length ?ev"
    then have "snd ((?ev ! i) p) = None" by (rule evaluated_pass)
    with f show False by simp
  qed
  with i have l: "length ?ev = i + 1" by simp
  have pass: "\<forall>j<i. outcome (report (fst (main p)) ! j) = Pass"
  proof (intro allI impI)
    fix j assume "j < i"
    with l have "Suc j < length ?ev" by simp
    then have "snd ((?ev ! j) p) = None" by (rule evaluated_pass)
    with \<open>Suc j < length ?ev\<close> show "outcome (report (fst (main p)) ! j) = Pass"
      by (simp add: outcome_main)
  qed
  from l have "last ?ev = ?ev ! i" by (cases ?ev rule: rev_cases) (simp_all add: nth_append)
  moreover from l have "?ev \<noteq> []" by auto
  ultimately have "snd (seq tests p) = snd ((?ev ! i) p)" by (simp add: seq_snd)
  with f obtain rc where rc: "snd (seq tests p) = Some rc" by auto
  then have one: "rc = 1" using seq_rc [of tests p rc] block_ok_tests by blast
  have cross: "fst (seq tests p) \<noteq> [] \<and> is_cross (last (fst (seq tests p)))"
    using seq_last_cross [of tests p rc] block_ok_tests rc by blast
  from rc have "fst (main p) = banner @ fst (seq tests p)" by (simp add: main_def Let_def)
  with cross have "is_cross (last (fst (main p)))" by simp
  moreover from rc one have "snd (main p) = 1" by (simp add: exit_main)
  ultimately show ?thesis using len l pass categories_main [of p] by simp
qed

text \<open>A report without a failure is the report of a run through all eleven blocks.\<close>

lemma no_failure_runs_all:
  assumes "\<forall>r \<in> set (report (fst (main p))). outcome r \<noteq> Fail"
  shows "evaluated tests p = tests \<and>
         map category (report (fst (main p))) = categories \<and>
         length (report (fst (main p))) = 11 \<and>
         snd (main p) = 0"
proof -
  let ?ev = "evaluated tests p"
  have none: "snd (seq tests p) = None"
  proof (rule ccontr)
    assume "snd (seq tests p) \<noteq> None"
    then have ne: "?ev \<noteq> []" and l: "snd (last ?ev p) \<noteq> None"
      by (auto simp: seq_snd split: if_splits)
    let ?i = "length ?ev - 1"
    from ne have i: "?i < length ?ev" by (cases ?ev) simp_all
    from ne have "last ?ev = ?ev ! ?i" by (simp add: last_conv_nth)
    with l i have "outcome (report (fst (main p)) ! ?i) = Fail" by (simp add: outcome_main)
    moreover from i have "report (fst (main p)) ! ?i \<in> set (report (fst (main p)))"
      by (simp add: report_main_blocks)
    ultimately show False using assms by auto
  qed
  then have all: "?ev = tests" by (rule evaluated_all)
  have "length tests = 11" by (simp add: tests_def)
  with all have "take (length ?ev) categories = categories" by (simp add: categories_def)
  then have "map category (report (fst (main p))) = categories"
    by (simp add: categories_main)
  moreover from this have "length (report (fst (main p))) = 11"
    using length_map [of category "report (fst (main p))"] by (simp add: categories_def)
  moreover from none have "snd (main p) = 0" by (simp add: exit_main)
  ultimately show ?thesis using all by simp
qed


subsection \<open>Handles and cleanup\<close>

text \<open>
  Claim C3 fails on the code: block 6 returns right after a failed \<^verbatim>\<open>BIO_write\<close>,
  without the \<^verbatim>\<open>BIO_free\<close> that the successful path of the same block performs. On a
  library whose \<^verbatim>\<open>BIO_new\<close> succeeds and whose \<^verbatim>\<open>BIO_write\<close> returns 0, the program
  ends with exit code 1 and the BIO still held.
\<close>

theorem bio_write_failure_leaks:
  "BIO_new bio_write_fails \<and> BIO_write bio_write_fails test_data = 0 \<and>
   snd (test6 bio_write_fails) = Some 1 \<and>
   live (fst (test6 bio_write_fails)) [] = [BIO] \<and>
   snd (main bio_write_fails) = 1 \<and>
   live (fst (main bio_write_fails)) [] = [BIO]"
  by (simp add: run_bio_write_fails)
     (simp add: test6_def emit_def Let_def bio_write_fails_def full_provider_def)

text \<open>Every other path of every block gives back what it acquired.\<close>

lemma live_plain: "live (map (\<lambda>i. Plain s (f i)) xs @ es) held = live es held"
  by (induction xs) simp_all

lemma live_marks:
  "live (map (\<lambda>a. if P a then Mark Tick (s a) (x a) else Mark Dash (t a) (y a)) as @ es) held
     = live es held"
  by (induction as) simp_all

lemma live_blocks:
  "live (fst (test1 p)) held = held"
  "live (fst (test2 p)) held = held"
  "live (fst (test3 p)) held = held"
  "live (fst (test4 p)) held = held"
  "live (fst (test5 p)) held = held"
  "live (fst (test6 p)) held
     = (if BIO_new p \<and> \<not> 0 < BIO_write p test_data then BIO # held else held)"
  "live (fst (test7 p)) held = held"
  "live (fst (test8 p)) held = held"
  "live (fst (test9 p)) held = held"
  "live (fst (test10 p)) held = held"
  "live (fst (test11 p)) held = held"
  by (simp_all add: test1_def test2_def test3_def test4_def test5_def test6_def test7_def
      test8_def test9_trace test10_def test11_def emit_def Let_def live_plain live_marks
      split: option.split)

lemma seq_append:
  "seq (ts @ us) p =
     (case snd (seq ts p) of Some rc \<Rightarrow> seq ts p | None \<Rightarrow> emit (fst (seq ts p)) (seq us p))"
  by (induction ts) (auto simp: emit_def prod_eq_iff split: option.splits)

lemma seq_events: "e \<in> set (fst (seq ts p)) \<Longrightarrow> \<exists>t \<in> set ts. e \<in> set (fst (t p))"
  using evaluated_subset [of ts p] by (auto simp: seq_fst)

lemma no_cleanup_before:
  assumes "t \<in> set (butlast tests)" and "c = ''EVP_cleanup'' \<or> c = ''ERR_free_strings''"
  shows "Call c \<notin> set (fst (t p))"
  using assms
  by (auto simp: tests_def test1_def test2_def test3_def test4_def test5_def test6_def
      test7_def test8_def test9_trace test10_def emit_def Let_def
      split: option.splits if_splits)

lemma categories_no_header:
  "\<not> list_ex is_header b \<Longrightarrow> map category (report (a @ b)) = map category (report a)"
  by (induction a rule: report.induct) (simp_all add: report_no_header)

text \<open>
  Claim C4, as amended. On a run that goes through all eleven blocks (exit code 0),
  \<^verbatim>\<open>EVP_cleanup\<close> and \<^verbatim>\<open>ERR_free_strings\<close> are each called exactly once, in block 11,
  after all other blocks and before the closing lines and \<^verbatim>\<open>return 0\<close>. A run that
  stops at a failure has exit code 1 and calls neither.
\<close>

theorem cleanup_once:
  "(snd (main p) = 0 \<longrightarrow>
      (\<exists>pre. fst (main p) =
          pre @ [Call ''EVP_cleanup'', Call ''ERR_free_strings'',
                 Mark Tick ''OpenSSL cleanup completed'' []] @ all_passed \<and>
        map category (report pre) = categories \<and>
        Call ''EVP_cleanup'' \<notin> set pre \<and> Call ''ERR_free_strings'' \<notin> set pre) \<and>
      count_list (fst (main p)) (Call ''EVP_cleanup'') = 1 \<and>
      count_list (fst (main p)) (Call ''ERR_free_strings'') = 1) \<and>
   (snd (main p) \<noteq> 0 \<longrightarrow>
      snd (main p) = 1 \<and>
      Call ''EVP_cleanup'' \<notin> set (fst (main p)) \<and>
      Call ''ERR_free_strings'' \<notin> set (fst (main p)))"
proof -
  let ?ten = "butlast tests"
  let ?out = "fst (seq ?ten p)"
  have split: "tests = ?ten @ [test11]" by (simp add: tests_def)
  have before: "Call c \<notin> set ?out" if "c = ''EVP_cleanup'' \<or> c = ''ERR_free_strings''" for c
    using seq_events [of "Call c" ?ten p] no_cleanup_before [OF _ that] by blast
  have nb: "Call c \<notin> set banner" and na: "Call c \<notin> set all_passed" for c
    by (simp_all add: banner_def all_passed_def)
  show ?thesis
  proof (cases "snd (seq ?ten p)")
    case None
    have s: "seq tests p = (?out @ fst (test11 p), None)"
      by (subst split, subst seq_append) (simp add: None emit_def test11_def)
    let ?pre = "banner @ ?out @ [Header 11 ''Cleanup:'' []]"
    have m: "fst (main p) =
        ?pre @ [Call ''EVP_cleanup'', Call ''ERR_free_strings'',
                Mark Tick ''OpenSSL cleanup completed'' []] @ all_passed"
      and z: "snd (main p) = 0"
      by (simp_all add: main_def Let_def s test11_def)
    have full: "map category (report (fst (main p))) = categories"
    proof -
      from s have "evaluated tests p = tests" by (intro evaluated_all) simp
      then have "take (length (evaluated tests p)) categories = categories"
        by (simp add: tests_def categories_def)
      then show ?thesis by (simp add: categories_main)
    qed
    have nh: "\<not> list_ex is_header
        ([Call ''EVP_cleanup'', Call ''ERR_free_strings'',
          Mark Tick ''OpenSSL cleanup completed'' []] @ all_passed)"
      by (simp add: all_passed_def)
    have "map category (report (fst (main p))) = map category (report ?pre)"
      by (simp only: m categories_no_header [OF nh])
    with full have c: "map category (report ?pre) = categories" by simp
    have n1: "Call ''EVP_cleanup'' \<notin> set ?pre" and n2: "Call ''ERR_free_strings'' \<notin> set ?pre"
      using before nb by simp_all
    have c1: "count_list (fst (main p)) (Call ''EVP_cleanup'') = 1"
      and c2: "count_list (fst (main p)) (Call ''ERR_free_strings'') = 1"
      using n1 n2 na by (simp_all only: m count_list_append) (simp_all add: count_list_0_iff)
    from m c n1 n2 c1 c2 z show ?thesis by blast
  next
    case (Some rc)
    have s: "seq tests p = seq ?ten p"
      by (subst split, subst seq_append) (simp add: Some)
    have "rc = 1"
    proof (rule seq_rc [of ?ten p rc])
      fix t assume "t \<in> set ?ten"
      then have "t \<in> set tests" by (rule in_set_butlastD)
      then show "block_ok (t p)" by (rule block_ok_tests)
    qed (rule Some)
    with Some s have m: "main p = (banner @ ?out, 1)" by (simp add: main_def Let_def)
    then show ?thesis using before nb by simp
  qed
qed

theorem cleanup_once_witness:
  "snd (main full_provider) = 0 \<and>
   count_list (fst (main full_provider)) (Call ''EVP_cleanup'') = 1 \<and>
   count_list (fst (main full_provider)) (Call ''ERR_free_strings'') = 1 \<and>
   snd (main bio_write_fails) = 1 \<and>
   Call ''EVP_cleanup'' \<notin> set (fst (main bio_write_fails)) \<and>
   Call ''ERR_free_strings'' \<notin> set (fst (main bio_write_fails))"
proof -
  have a: "snd (main full_provider) = 0"
    by (simp add: main_defs full_provider_def)
  have b: "snd (main bio_write_fails) \<noteq> 0"
    by (simp add: run_bio_write_fails)
  from cleanup_once [of full_provider] cleanup_once [of bio_write_fails] a b
  show ?thesis by blast
qed

text \<open>
  The run that stops at \<^verbatim>\<open>EVP_sha256\<close>: it has terminated, with exit code 1, and neither
  cleanup function was called.
\<close>

theorem cleanup_skipped_counterexample:
  "snd (main no_sha256) = 1 \<and>
   count_list (fst (main no_sha256)) (Call ''EVP_cleanup'') = 0 \<and>
   count_list (fst (main no_sha256)) (Call ''ERR_free_strings'') = 0"
  by (simp add: main_defs no_sha256_def full_provider_def)

lemma live_append: "live (a @ b) held = live b (live a held)"
  by (induction a held rule: live.induct) simp_all

lemma live_concat:
  "(\<And>t h. t \<in> set ts \<Longrightarrow> live (fst (t p)) h = h) \<Longrightarrow>
   live (concat (map (\<lambda>t. fst (t p)) ts)) held = held"
  by (induction ts) (simp_all add: live_append)

lemma no_leak_otherwise:
  assumes "\<not> (BIO_new p \<and> \<not> 0 < BIO_write p test_data)"
  shows "live (fst (main p)) [] = []"
proof -
  have "live (fst (t p)) h = h" if "t \<in> set tests" for t h
    using that assms by (auto simp: tests_def live_blocks)
  then have "live (fst (t p)) h = h" if "t \<in> set (evaluated tests p)" for t h
    using that evaluated_subset by blast
  then have "live (fst (seq tests p)) [] = []"
    by (simp add: seq_fst live_concat)
  then show ?thesis
    by (simp add: main_def Let_def live_append banner_def all_passed_def split: option.split)
qed

subsection \<open>Checks that cannot fail\<close>

lemma seq_snd_cong:
  "(\<And>t. t \<in> set ts \<Longrightarrow> snd (t p) = snd (t q)) \<Longrightarrow> snd (seq ts p) = snd (seq ts q)"
  by (induction ts) (auto simp: emit_def split: option.splits)

lemma exit_cong:
  "(\<And>t. t \<in> set tests \<Longrightarrow> snd (t p) = snd (t q)) \<Longrightarrow> snd (main p) = snd (main q)"
  using seq_snd_cong [of tests p q] by (simp add: exit_main)

lemmas returns =
  test1_def test2_def test3_def test4_def test5_def test6_def test7_def test8_def
  test9_def test10_def test11_def emit_def Let_def

text \<open>
  Claim C5. Block 5 never returns: whether \<^verbatim>\<open>EVP_MD_CTX_new\<close> yields \<^verbatim>\<open>NULL\<close> or a
  handle, its one result is a pass, and the exit code of the run is the same. With
  \<^verbatim>\<open>NULL\<close> the line printed is the one about error handling and nothing is freed; with
  a handle the handle is freed and the other line is printed. No handle is held after
  the block.
\<close>

theorem error_handling_check_passes:
  "snd (test5 p) = None \<and>
   report (fst (test5 p)) =
     [\<lparr>category = (5, ''Error Handling Test:''), entries = [Pass], outcome = Pass\<rparr>] \<and>
   live (fst (test5 p)) held = held \<and>
   snd (main (p\<lparr>EVP_MD_CTX_new := (EVP_MD_CTX_new p)(0 := b)\<rparr>)) = snd (main p) \<and>
   (\<not> EVP_MD_CTX_new p 0 \<longrightarrow>
      Mark Tick ''Error handling working (EVP_MD_CTX_new failed as expected)'' []
        \<in> set (fst (test5 p)) \<and>
      Free MD_CTX \<notin> set (fst (test5 p))) \<and>
   (EVP_MD_CTX_new p 0 \<longrightarrow>
      Mark Tick ''EVP_MD_CTX operations successful'' [] \<in> set (fst (test5 p)) \<and>
      Free MD_CTX \<in> set (fst (test5 p)))"
proof -
  have "snd (main (p\<lparr>EVP_MD_CTX_new := (EVP_MD_CTX_new p)(0 := b)\<rparr>)) = snd (main p)"
    by (rule exit_cong) (auto simp: tests_def returns)
  then show ?thesis by (simp add: test5_def emit_def)
qed

theorem error_handling_check_passes_witness:
  "\<not> EVP_MD_CTX_new no_ctx 0 \<and>
   Mark Tick ''Error handling working (EVP_MD_CTX_new failed as expected)'' []
     \<in> set (fst (test5 no_ctx)) \<and>
   snd (test5 no_ctx) = None \<and> snd (main no_ctx) = 0 \<and>
   EVP_MD_CTX_new full_provider 0 \<and>
   Free MD_CTX \<in> set (fst (test5 full_provider)) \<and>
   live (fst (test5 full_provider)) [] = []"
proof -
  have a: "\<not> EVP_MD_CTX_new no_ctx 0" and b: "EVP_MD_CTX_new full_provider 0"
    by (simp_all add: no_ctx_def full_provider_def)
  have c: "snd (main no_ctx) = 0"
    by (simp add: main_defs no_ctx_def full_provider_def)
  from error_handling_check_passes [of no_ctx "[]" True]
    error_handling_check_passes [of full_provider "[]" True] a b c
  show ?thesis by blast
qed

text \<open>
  Claim C6. Block 9 never returns and none of its entries is a failure, whichever of
  the eight names resolve: a name found as a digest or as a cipher is a pass, any other
  is not available, and the exit code of the run does not depend on the two lookups.
  The count in the summary line is the number of names found; it is 8 of 8 when all are.
\<close>

theorem algorithm_availability_never_fails:
  "snd (test9 p) = None \<and>
   entries_of (tl (fst (test9 p))) =
     map (\<lambda>a. if EVP_get_digestbyname p a \<or> EVP_get_cipherbyname p a then Pass else Skipped)
       algorithms @ [Pass] \<and>
   Fail \<notin> set (entries_of (tl (fst (test9 p)))) \<and>
   snd (main (p\<lparr>EVP_get_digestbyname := d, EVP_get_cipherbyname := c\<rparr>)) = snd (main p) \<and>
   snd (algorithm_loop p algorithms 0) =
     int (length (filter (\<lambda>a. EVP_get_digestbyname p a \<or> EVP_get_cipherbyname p a)
       algorithms)) \<and>
   Mark Tick ''%d/%zu algorithms available''
     [AInt (snd (algorithm_loop p algorithms 0)), ASize 8] \<in> set (fst (test9 p)) \<and>
   ((\<forall>a \<in> set algorithms. EVP_get_digestbyname p a \<or> EVP_get_cipherbyname p a) \<longrightarrow>
      Mark Tick ''%d/%zu algorithms available'' [AInt 8, ASize 8] \<in> set (fst (test9 p)))"
proof -
  have av: "available p = (\<lambda>a. EVP_get_digestbyname p a \<or> EVP_get_cipherbyname p a)"
    by (simp add: available_def fun_eq_iff)
  have 1: "snd (test9 p) = None" by (simp add: test9_def Let_def)
  have 2: "entries_of (tl (fst (test9 p))) =
      map (\<lambda>a. if EVP_get_digestbyname p a \<or> EVP_get_cipherbyname p a then Pass else Skipped)
        algorithms @ [Pass]"
    using test9_entries [of p] by (simp only: av)
  have 3: "Fail \<notin> set (entries_of (tl (fst (test9 p))))"
    by (auto simp: test9_entries)
  have 4: "snd (main (p\<lparr>EVP_get_digestbyname := d, EVP_get_cipherbyname := c\<rparr>)) = snd (main p)"
    by (rule exit_cong) (auto simp: tests_def returns)
  have 5: "snd (algorithm_loop p algorithms 0) =
      int (length (filter (\<lambda>a. EVP_get_digestbyname p a \<or> EVP_get_cipherbyname p a)
        algorithms))"
    using algorithm_loop_count [of p algorithms 0] by (simp add: av)
  have 6: "Mark Tick ''%d/%zu algorithms available''
      [AInt (snd (algorithm_loop p algorithms 0)), ASize 8] \<in> set (fst (test9 p))"
    by (simp add: test9_trace algorithm_loop_count)
  have 7: "Mark Tick ''%d/%zu algorithms available'' [AInt 8, ASize 8] \<in> set (fst (test9 p))"
    if "\<forall>a \<in> set algorithms. EVP_get_digestbyname p a \<or> EVP_get_cipherbyname p a"
  proof -
    from that have "filter (available p) algorithms = algorithms"
      by (simp add: av)
    then have "snd (algorithm_loop p algorithms 0) = 8"
      by (simp add: algorithm_loop_count) (simp add: algorithms_def)
    with 6 show ?thesis by simp
  qed
  from 1 2 3 4 5 6 7 show ?thesis by blast
qed

theorem algorithm_availability_never_fails_witness:
  "Mark Tick ''%d/%zu algorithms available'' [AInt 8, ASize 8]
     \<in> set (fst (test9 full_provider)) \<and>
   Mark Tick ''%d/%zu algorithms available'' [AInt 5, ASize 8]
     \<in> set (fst (test9 five_of_eight)) \<and>
   entries_of (tl (fst (test9 five_of_eight))) =
     [Pass, Pass, Pass, Pass, Skipped, Skipped, Skipped, Pass, Pass] \<and>
   snd (test9 five_of_eight) = None"
proof -
  have a: "list_all (\<lambda>a. EVP_get_digestbyname full_provider a \<or> EVP_get_cipherbyname full_provider a)
      algorithms"
    by (simp add: full_provider_def algorithms_def)
  then have a': "\<forall>a \<in> set algorithms.
      EVP_get_digestbyname full_provider a \<or> EVP_get_cipherbyname full_provider a"
    by (simp add: list_all_iff)
  have n: "snd (algorithm_loop five_of_eight algorithms 0) = 5"
    by (simp add: algorithms_def five_of_eight_def full_provider_def)
  have e: "map (\<lambda>a. if EVP_get_digestbyname five_of_eight a \<or> EVP_get_cipherbyname five_of_eight a
                   then Pass else Skipped) algorithms @ [Pass]
      = [Pass, Pass, Pass, Pass, Skipped, Skipped, Skipped, Pass, Pass]"
    by (simp add: algorithms_def five_of_eight_def full_provider_def)
  from algorithm_availability_never_fails [of full_provider] a'
  have "Mark Tick ''%d/%zu algorithms available'' [AInt 8, ASize 8]
      \<in> set (fst (test9 full_provider))"
    by blast
  moreover from algorithm_availability_never_fails [of five_of_eight] n e
  have "Mark Tick ''%d/%zu algorithms available'' [AInt 5, ASize 8]
      \<in> set (fst (test9 five_of_eight)) \<and>
    entries_of (tl (fst (test9 five_of_eight))) =
      [Pass, Pass, Pass, Pass, Skipped, Skipped, Skipped, Pass, Pass] \<and>
    snd (test9 five_of_eight) = None"
    by simp
  ultimately show ?thesis by blast
qed

subsection \<open>What the report and the exit code depend on\<close>

lemma report_test9:
  "report (fst (test9 p)) =
    [\<lparr>category = (9, ''Algorithm Availability Test:''),
      entries = map (\<lambda>a. if available p a then Pass else Skipped) algorithms @ [Pass],
      outcome = Pass\<rparr>]"
proof -
  have n: "snd (test9 p) = None" by (simp add: test9_def Let_def)
  obtain c where r: "report (fst (test9 p)) =
      [\<lparr>category = c, entries = entries_of (tl (fst (test9 p))),
        outcome = (if snd (test9 p) = None then Pass else Fail)\<rparr>]"
    using block_ok_test9 by (rule block_report)
  from r have "category (hd (report (fst (test9 p)))) = c" by simp
  then have "c = (9, ''Algorithm Availability Test:'')" by (simp add: category_test9)
  with r n show ?thesis by (simp add: test9_entries)
qed

lemma same_indicators_blocks:
  assumes "indicators p = indicators q" and "t \<in> set tests"
  shows "snd (t p) = snd (t q) \<and> report (fst (t p)) = report (fst (t q))"
proof -
  have n: "indicators p ! k = indicators q ! k" for k
    by (simp only: assms(1))
  have i:
    "(SSL_library_init p = 1) = (SSL_library_init q = 1)"
    "(SSL_load_error_strings p = 1) = (SSL_load_error_strings q = 1)"
    "(OpenSSL_add_all_algorithms p = 1) = (OpenSSL_add_all_algorithms q = 1)"
    "(EVP_sha256 p \<noteq> None) = (EVP_sha256 q \<noteq> None)"
    "(fst (RAND_bytes p) = 1) = (fst (RAND_bytes q) = 1)"
    "EVP_MD_CTX_new p 0 = EVP_MD_CTX_new q 0"
    "BIO_new p = BIO_new q"
    "(0 < BIO_write p test_data) = (0 < BIO_write q test_data)"
    "(SSL_CTX_new p \<noteq> None) = (SSL_CTX_new q \<noteq> None)"
    "EVP_MD_CTX_new p 1 = EVP_MD_CTX_new q 1"
    "(OPENSSL_CONF p \<noteq> None) = (OPENSSL_CONF q \<noteq> None)"
    "(FIPS_mode p = 1) = (FIPS_mode q = 1)"
    using n [of 0] n [of 1] n [of 2] n [of 3] n [of 4] n [of 5] n [of 6] n [of 7] n [of 8]
      n [of 9] n [of 10] n [of 11]
    by (simp_all add: indicators_def)
  have "drop 12 (indicators p) = drop 12 (indicators q)"
    by (simp only: assms(1))
  then have av: "map (available p) algorithms = map (available q) algorithms"
    by (simp add: indicators_def available_def)
  have 1: "snd (test1 p) = snd (test1 q) \<and> report (fst (test1 p)) = report (fst (test1 q))"
    by (simp add: test1_def)
  have 2: "snd (test2 p) = snd (test2 q) \<and> report (fst (test2 p)) = report (fst (test2 q))"
    using i(1-3) by (simp add: test2_def emit_def)
  have 3: "snd (test3 p) = snd (test3 q) \<and> report (fst (test3 p)) = report (fst (test3 q))"
    using i(4) by (cases "EVP_sha256 p"; cases "EVP_sha256 q") (simp_all add: test3_def emit_def)
  have 4: "snd (test4 p) = snd (test4 q) \<and> report (fst (test4 p)) = report (fst (test4 q))"
    using i(5) by (simp add: test4_def emit_def upt_8)
  have 5: "snd (test5 p) = snd (test5 q) \<and> report (fst (test5 p)) = report (fst (test5 q))"
    using i(6) by (simp add: test5_def emit_def)
  have 6: "snd (test6 p) = snd (test6 q) \<and> report (fst (test6 p)) = report (fst (test6 q))"
    using i(7,8) by (simp add: test6_def emit_def Let_def)
  have 7: "snd (test7 p) = snd (test7 q) \<and> report (fst (test7 p)) = report (fst (test7 q))"
    using i(9) by (cases "SSL_CTX_new p"; cases "SSL_CTX_new q") (simp_all add: test7_def emit_def)
  have 8: "snd (test8 p) = snd (test8 q) \<and> report (fst (test8 p)) = report (fst (test8 q))"
    using i(10) by (simp add: test8_def emit_def)
  have "map (\<lambda>a. if available p a then Pass else Skipped) algorithms
      = map (\<lambda>s. if s then Pass else Skipped) (map (available p) algorithms)"
    by simp
  also have "\<dots> = map (\<lambda>s. if s then Pass else Skipped) (map (available q) algorithms)"
    by (simp only: av)
  also have "\<dots> = map (\<lambda>a. if available q a then Pass else Skipped) algorithms"
    by simp
  finally have 9: "snd (test9 p) = snd (test9 q) \<and> report (fst (test9 p)) = report (fst (test9 q))"
    by (simp add: report_test9) (simp add: test9_def Let_def)
  have 10: "snd (test10 p) = snd (test10 q) \<and> report (fst (test10 p)) = report (fst (test10 q))"
    using i(11,12)
    by (cases "OPENSSL_CONF p"; cases "OPENSSL_CONF q") (simp_all add: test10_def)
  have 11: "snd (test11 p) = snd (test11 q) \<and> report (fst (test11 p)) = report (fst (test11 q))"
    by (simp add: test11_def)
  from assms(2) have "t = test1 \<or> t = test2 \<or> t = test3 \<or> t = test4 \<or> t = test5 \<or> t = test6
      \<or> t = test7 \<or> t = test8 \<or> t = test9 \<or> t = test10 \<or> t = test11"
    by (simp add: tests_def)
  then show ?thesis
    using 1 2 3 4 5 6 7 8 9 10 11 by (elim disjE) (simp_all only:)
qed

text \<open>
  Claim C7. Two runs in which every call the program tests succeeds or fails alike
  have the same report: the same blocks in the same order, with the same entries and
  outcomes, and the same exit code. The values printed (random bytes, version texts,
  sizes) play no part.
\<close>

theorem same_indicators_same_report:
  assumes "indicators p = indicators q"
  shows "report (fst (main p)) = report (fst (main q)) \<and> snd (main p) = snd (main q)"
proof -
  have s: "snd (t p) = snd (t q)" and r: "report (fst (t p)) = report (fst (t q))"
    if "t \<in> set tests" for t
    using same_indicators_blocks [OF assms that] by simp_all
  have e: "evaluated tests p = evaluated tests q"
    by (rule evaluated_cong) (rule s)
  have "report (fst (main p)) = map (\<lambda>t. hd (report (fst (t p)))) (evaluated tests q)"
    by (simp add: report_main_blocks e)
  also have "\<dots> = map (\<lambda>t. hd (report (fst (t q)))) (evaluated tests q)"
  proof (rule map_cong [OF refl])
    fix t assume "t \<in> set (evaluated tests q)"
    then have "t \<in> set tests" using evaluated_subset by blast
    then show "hd (report (fst (t p))) = hd (report (fst (t q)))" by (simp add: r)
  qed
  also have "\<dots> = report (fst (main q))" by (simp add: report_main_blocks)
  finally have "report (fst (main p)) = report (fst (main q))" .
  moreover have "snd (main p) = snd (main q)" by (rule exit_cong) (rule s)
  ultimately show ?thesis ..
qed

text \<open>
  Two libraries that differ in the random bytes they deliver: the traces differ, the
  reports do not.
\<close>

theorem same_indicators_same_report_witness:
  "indicators full_provider = indicators other_random \<and>
   fst (main full_provider) \<noteq> fst (main other_random) \<and>
   report (fst (main full_provider)) = report (fst (main other_random)) \<and>
   snd (main full_provider) = snd (main other_random)"
proof -
  have a: "indicators full_provider = indicators other_random"
    by (simp add: indicators_def other_random_def full_provider_def)
  have b1: "Plain ''%02x'' [AHex 255] \<in> set (fst (main other_random))"
    by (simp add: main_defs other_random_def full_provider_def)
  have b2: "Plain ''%02x'' [AHex 255] \<notin> set (fst (main full_provider))"
    by (simp add: main_defs full_provider_def)
  have b: "fst (main full_provider) \<noteq> fst (main other_random)"
  proof
    assume "fst (main full_provider) = fst (main other_random)"
    with b1 b2 show False by simp
  qed
  from same_indicators_same_report [OF a] a b show ?thesis by (intro conjI) (elim conjE, assumption)+
qed

text \<open>
  Claim C8. The configuration path is only reported: block 10 prints its value when it
  is set and that it is not set otherwise, never returns, and the exit code of the run
  is the same whatever the value.
\<close>

theorem configuration_path_informational:
  "snd (main (p\<lparr>OPENSSL_CONF := c\<rparr>)) = snd (main p) \<and>
   snd (test10 p) = None \<and>
   (OPENSSL_CONF p = Some f \<longrightarrow>
      Mark Tick ''OPENSSL_CONF: %s'' [AStr f] \<in> set (fst (test10 p))) \<and>
   (OPENSSL_CONF p = None \<longrightarrow>
      Mark Dash ''OPENSSL_CONF not set'' [] \<in> set (fst (test10 p)))"
proof -
  have "snd (main (p\<lparr>OPENSSL_CONF := c\<rparr>)) = snd (main p)"
    by (rule exit_cong) (auto simp: tests_def returns)
  then show ?thesis by (simp add: test10_def)
qed

theorem configuration_path_informational_witness:
  "OPENSSL_CONF full_provider = Some ''openssl.cnf'' \<and>
   Mark Tick ''OPENSSL_CONF: %s'' [AStr ''openssl.cnf''] \<in> set (fst (test10 full_provider)) \<and>
   OPENSSL_CONF (full_provider\<lparr>OPENSSL_CONF := None\<rparr>) = None \<and>
   Mark Dash ''OPENSSL_CONF not set'' []
     \<in> set (fst (test10 (full_provider\<lparr>OPENSSL_CONF := None\<rparr>))) \<and>
   snd (main (full_provider\<lparr>OPENSSL_CONF := None\<rparr>)) = snd (main full_provider)"
proof -
  have a: "OPENSSL_CONF full_provider = Some ''openssl.cnf''"
    and b: "OPENSSL_CONF (full_provider\<lparr>OPENSSL_CONF := None\<rparr>) = None"
    by (simp_all add: full_provider_def)
  from configuration_path_informational
      [where p = full_provider and c = None and f = "''openssl.cnf''"]
    configuration_path_informational
      [where p = "full_provider\<lparr>OPENSSL_CONF := None\<rparr>" and c = None and f = "[]"]
    a b
  show ?thesis by blast
qed

subsection \<open>The exit code in terms of the library\<close>

lemma seq_snd_None: "snd (seq ts p) = None \<longleftrightarrow> (\<forall>t \<in> set ts. snd (t p) = None)"
  by (induction ts) (auto simp: emit_def split: option.splits)

text \<open>
  The program exits with 0 exactly when each of the nine calls it requires succeeds;
  otherwise it exits with 1.
\<close>

lemma exit_code_required:
  "snd (main p) =
    (if SSL_library_init p = 1 \<and> SSL_load_error_strings p = 1 \<and>
        OpenSSL_add_all_algorithms p = 1 \<and> EVP_sha256 p \<noteq> None \<and>
        fst (RAND_bytes p) = 1 \<and> BIO_new p \<and> 0 < BIO_write p test_data \<and>
        SSL_CTX_new p \<noteq> None \<and> EVP_MD_CTX_new p 1
     then 0 else 1)"
proof (cases "snd (seq tests p)")
  case None
  then have "\<forall>t \<in> set tests. snd (t p) = None" by (simp add: seq_snd_None)
  then have "snd (test2 p) = None" "snd (test3 p) = None" "snd (test4 p) = None"
    "snd (test6 p) = None" "snd (test7 p) = None" "snd (test8 p) = None"
    by (simp_all add: tests_def)
  then have "SSL_library_init p = 1 \<and> SSL_load_error_strings p = 1 \<and>
        OpenSSL_add_all_algorithms p = 1 \<and> EVP_sha256 p \<noteq> None \<and>
        fst (RAND_bytes p) = 1 \<and> BIO_new p \<and> 0 < BIO_write p test_data \<and>
        SSL_CTX_new p \<noteq> None \<and> EVP_MD_CTX_new p 1"
    by (auto simp: test2_def test3_def test4_def test6_def test7_def test8_def emit_def
        Let_def split: if_splits option.splits)
  with None show ?thesis by (simp add: exit_main)
next
  case (Some rc)
  then have one: "rc = 1" using seq_rc [of tests p rc] block_ok_tests by blast
  have "\<not> (SSL_library_init p = 1 \<and> SSL_load_error_strings p = 1 \<and>
        OpenSSL_add_all_algorithms p = 1 \<and> EVP_sha256 p \<noteq> None \<and>
        fst (RAND_bytes p) = 1 \<and> BIO_new p \<and> 0 < BIO_write p test_data \<and>
        SSL_CTX_new p \<noteq> None \<and> EVP_MD_CTX_new p 1)"
  proof
    assume "SSL_library_init p = 1 \<and> SSL_load_error_strings p = 1 \<and>
        OpenSSL_add_all_algorithms p = 1 \<and> EVP_sha256 p \<noteq> None \<and>
        fst (RAND_bytes p) = 1 \<and> BIO_new p \<and> 0 < BIO_write p test_data \<and>
        SSL_CTX_new p \<noteq> None \<and> EVP_MD_CTX_new p 1"
    then have "\<forall>t \<in> set tests. snd (t p) = None"
      by (auto simp: tests_def returns)
    then have "snd (seq tests p) = None" by (simp only: seq_snd_None)
    with Some show False by simp
  qed
  with Some one show ?thesis by (simp add: exit_main)
qed

subsection \<open>Failure of a required call, and runs without one\<close>

lemma block_returns_all:
  "map (\<lambda>t. snd (t p)) tests = map (\<lambda>ok. if ok then None else Some 1) (required p)"
  by (simp add: tests_def required_def returns split: option.split)

lemma length_required: "length (required p) = 11"
  by (simp add: required_def)

lemma length_tests: "length tests = 11"
  by (simp add: tests_def)

lemma block_returns:
  assumes "k < 11"
  shows "snd ((tests ! k) p) = (if required p ! k then None else Some 1)"
proof -
  have "map (\<lambda>t. snd (t p)) tests ! k
      = map (\<lambda>ok. if ok then None else Some 1) (required p) ! k"
    by (simp only: block_returns_all)
  with assms show ?thesis by (simp add: length_required length_tests)
qed

lemma evaluated_first_failure:
  "i < length ts \<Longrightarrow> snd ((ts ! i) p) \<noteq> None \<Longrightarrow> (\<forall>j<i. snd ((ts ! j) p) = None) \<Longrightarrow>
   evaluated ts p = take (Suc i) ts"
proof (induction ts arbitrary: i)
  case Nil
  then show ?case by simp
next
  case (Cons t ts)
  show ?case
  proof (cases i)
    case 0
    with Cons.prems show ?thesis by auto
  next
    case (Suc k)
    with Cons.prems have "snd (t p) = None" by auto
    moreover have "evaluated ts p = take (Suc k) ts"
    proof (rule Cons.IH)
      show "k < length ts" using Cons.prems(1) Suc by simp
      show "snd ((ts ! k) p) \<noteq> None" using Cons.prems(2) Suc by simp
      show "\<forall>j<k. snd ((ts ! j) p) = None"
      proof (intro allI impI)
        fix j assume "j < k"
        then have "Suc j < i" using Suc by simp
        with Cons.prems(3) have "snd (((t # ts) ! Suc j) p) = None" by blast
        then show "snd ((ts ! j) p) = None" by simp
      qed
    qed
    ultimately show ?thesis using Suc by simp
  qed
qed

text \<open>
  Claim C1. Let the check at position \<open>i\<close> fail, that is, let a call that block
  \<open>i + 1\<close> of the source requires return a failure indicator or \<^verbatim>\<open>NULL\<close>, the checks
  before it succeeding so that the run reaches it. Then the report has exactly the
  results of positions \<open>0..i\<close>, passes before \<open>i\<close> and a failure at \<open>i\<close>; the trace is
  that of the first \<open>i + 1\<close> blocks and ends with the line of the failure, so that
  nothing after it is evaluated; and the exit code is 1.
\<close>

theorem fail_fast:
  assumes "i < length (required p)"
    and "\<not> required p ! i"
    and "\<forall>j<i. required p ! j"
  shows "length (report (fst (main p))) = i + 1 \<and>
         map category (report (fst (main p))) = take (i + 1) categories \<and>
         (\<forall>j<i. outcome (report (fst (main p)) ! j) = Pass) \<and>
         outcome (report (fst (main p)) ! i) = Fail \<and>
         fst (main p) = banner @ concat (map (\<lambda>t. fst (t p)) (take (i + 1) tests)) \<and>
         is_cross (last (fst (main p))) \<and>
         snd (main p) = 1"
proof -
  from assms(1) have i: "i < 11" by (simp add: length_required)
  then have it: "i < length tests" by (simp add: length_tests)
  from i assms(2) have f: "snd ((tests ! i) p) \<noteq> None" by (simp add: block_returns)
  have b: "\<forall>j<i. snd ((tests ! j) p) = None"
  proof (intro allI impI)
    fix j assume "j < i"
    with i assms(3) have "j < 11" "required p ! j" by simp_all
    then show "snd ((tests ! j) p) = None" by (simp add: block_returns)
  qed
  have ev: "evaluated tests p = take (Suc i) tests"
    using it f b by (rule evaluated_first_failure)
  with it have len: "i < length (report (fst (main p)))"
    by (simp add: report_main_blocks)
  from ev it have "evaluated tests p ! i = tests ! i" by simp
  moreover from ev it have "i < length (evaluated tests p)" by simp
  ultimately have fail: "outcome (report (fst (main p)) ! i) = Fail"
    using f by (simp add: outcome_main)
  from f ev it have "snd (seq tests p) \<noteq> None"
    by (simp add: seq_snd take_Suc_conv_app_nth)
  then have "fst (main p) = banner @ fst (seq tests p)"
    by (auto simp: main_def Let_def)
  then have tr: "fst (main p) = banner @ concat (map (\<lambda>t. fst (t p)) (take (i + 1) tests))"
    by (simp add: seq_fst ev)
  from fail_position [OF len fail] fail tr show ?thesis by simp
qed

text \<open>
  Two libraries: one whose \<^verbatim>\<open>EVP_sha256\<close> returns \<^verbatim>\<open>NULL\<close> (position 2), one whose
  \<^verbatim>\<open>SSL_CTX_new\<close> does (position 6).
\<close>

theorem fail_fast_witness:
  "required no_sha256 = [True, True, False, True, True, True, True, True, True, True, True] \<and>
   map outcome (report (fst (main no_sha256))) = [Pass, Pass, Fail] \<and>
   last (fst (main no_sha256)) = Mark Cross ''EVP_sha256() failed'' [] \<and>
   snd (main no_sha256) = 1 \<and>
   required no_ssl_ctx = [True, True, True, True, True, True, False, True, True, True, True] \<and>
   length (report (fst (main no_ssl_ctx))) = 7 \<and>
   outcome (report (fst (main no_ssl_ctx)) ! 6) = Fail \<and>
   is_cross (last (fst (main no_ssl_ctx))) \<and>
   snd (main no_ssl_ctx) = 1"
proof -
  have r1: "required no_sha256
      = [True, True, False, True, True, True, True, True, True, True, True]"
    by (simp add: required_def no_sha256_def full_provider_def test_data_def)
  have r2: "required no_ssl_ctx
      = [True, True, True, True, True, True, False, True, True, True, True]"
    by (simp add: required_def no_ssl_ctx_def full_provider_def test_data_def)
  have a1: "2 < length (required no_sha256)" and b1: "\<not> required no_sha256 ! 2"
    by (simp_all add: r1)
  have "\<forall>j<Suc (Suc 0). required no_sha256 ! j"
    by (simp add: r1 All_less_Suc)
  then have c1: "\<forall>j<2. required no_sha256 ! j" by (simp add: numeral_2_eq_2)
  have a2: "6 < length (required no_ssl_ctx)" and b2: "\<not> required no_ssl_ctx ! 6"
    by (simp_all add: r2)
  have "\<forall>j<Suc (Suc (Suc (Suc (Suc (Suc 0))))). required no_ssl_ctx ! j"
    by (simp add: r2 All_less_Suc)
  then have c2: "\<forall>j<6. required no_ssl_ctx ! j" by (simp add: eval_nat_numeral)
  from fail_fast [OF a1 b1 c1]
  have "snd (main no_sha256) = 1" by blast
  moreover from fail_fast [OF a2 b2 c2]
  have "length (report (fst (main no_ssl_ctx))) = 6 + 1 \<and>
      outcome (report (fst (main no_ssl_ctx)) ! 6) = Fail \<and>
      is_cross (last (fst (main no_ssl_ctx))) \<and>
      snd (main no_ssl_ctx) = 1"
    by blast
  ultimately show ?thesis using r1 r2 by (simp add: run_no_sha256)
qed

lemma calls_append: "calls (a @ b) = calls a @ calls b"
  by (simp add: calls_def)

lemma calls_plain: "calls (map (\<lambda>i. Plain s (f i)) xs) = []"
  by (induction xs) (simp_all add: calls_def)

lemma calls_marks:
  "calls (map (\<lambda>a. if P a then Mark Tick (s a) (x a) else Mark Dash (t a) (y a)) as) = []"
  by (induction as) (simp_all add: calls_def)

lemma calls_test9: "calls (fst (test9 p)) = []"
proof -
  have "calls (fst (test9 p)) =
      calls (map (\<lambda>a. if available p a then Mark Tick ''%s available'' [AStr a]
                 else Mark Dash ''%s not available'' [AStr a]) algorithms)"
    by (simp add: test9_trace calls_def)
  then show ?thesis by (simp only: calls_marks)
qed

text \<open>
  Claim C2. If no result of the report is a failure (entries that are only not
  available are allowed), then every call the program requires succeeded, the run is
  that of all eleven blocks followed by the closing lines, every block printed its
  results and made its library calls, cleanup last, and the exit code is 0.
\<close>

theorem no_failure_exit_zero:
  assumes "\<forall>r \<in> set (report (fst (main p))). outcome r \<noteq> Fail"
  shows "False \<notin> set (required p) \<and>
         fst (main p) = banner @ concat (map (\<lambda>t. fst (t p)) tests) @ all_passed \<and>
         map category (report (fst (main p))) = categories \<and>
         map entries (report (fst (main p))) =
           [[Pass], [Pass, Pass, Pass], [Pass, Pass, Pass], [Pass, Pass, Pass], [Pass],
            [Pass, Pass, Pass], [Pass, Pass, Pass], [Pass, Pass],
            map (\<lambda>a. if EVP_get_digestbyname p a \<or> EVP_get_cipherbyname p a
                     then Pass else Skipped) algorithms @ [Pass],
            [if OPENSSL_CONF p \<noteq> None then Pass else Skipped,
             if FIPS_mode p = 1 then Pass else Skipped],
            [Pass]] \<and>
         calls (fst (main p)) =
           [Call ''SSL_library_init'', Call ''SSL_load_error_strings'',
            Call ''OpenSSL_add_all_algorithms'', Call ''RAND_bytes'',
            Call ''ERR_load_crypto_strings'', Call ''ERR_load_SSL_strings'',
            New MD_CTX (EVP_MD_CTX_new p 0)]
           @ (if EVP_MD_CTX_new p 0 then [Free MD_CTX] else [])
           @ [New BIO True, Call ''BIO_write'', Free BIO,
              New SSL_CTX True, Free SSL_CTX,
              New MD_CTX True, Free MD_CTX,
              Call ''EVP_cleanup'', Call ''ERR_free_strings''] \<and>
         snd (main p) = 0"
proof -
  from no_failure_runs_all [OF assms]
  have ev: "evaluated tests p = tests"
    and cat: "map category (report (fst (main p))) = categories"
    and z: "snd (main p) = 0"
    by simp_all
  have none: "snd (seq tests p) = None"
  proof (cases "snd (seq tests p)")
    case (Some rc)
    then have "rc = 1" using seq_rc [of tests p rc] block_ok_tests by blast
    with Some z show ?thesis by (simp add: exit_main)
  qed simp
  have req: "False \<notin> set (required p)"
  proof
    assume "False \<in> set (required p)"
    then obtain k where k: "k < length (required p)" "required p ! k = False"
      by (auto simp: in_set_conv_nth)
    then have k11: "k < 11" by (simp add: length_required)
    with k have "snd ((tests ! k) p) = Some 1" by (simp add: block_returns)
    moreover from k11 have "tests ! k \<in> set tests" by (simp add: length_tests)
    ultimately show False using none by (simp add: seq_snd_None)
  qed
  then have r:
    "SSL_library_init p = 1" "SSL_load_error_strings p = 1" "OpenSSL_add_all_algorithms p = 1"
    "EVP_sha256 p \<noteq> None" "fst (RAND_bytes p) = 1" "BIO_new p" "0 < BIO_write p test_data"
    "SSL_CTX_new p \<noteq> None" "EVP_MD_CTX_new p 1"
    by (simp_all add: required_def)
  from r(4) obtain md where md: "EVP_sha256 p = Some md" by auto
  from r(8) obtain v where v: "SSL_CTX_new p = Some v" by auto
  have tr: "fst (main p) = banner @ concat (map (\<lambda>t. fst (t p)) tests) @ all_passed"
    using none by (simp add: main_def Let_def seq_fst ev)
  have "map entries (report (fst (main p))) = map (\<lambda>t. entries (hd (report (fst (t p))))) tests"
    by (simp add: report_main_blocks ev)
  also have "\<dots> = map (\<lambda>t. entries_of (tl (fst (t p)))) tests"
    by (rule map_cong [OF refl]) (rule block_entries, rule block_ok_tests)
  also have "\<dots> =
      [[Pass], [Pass, Pass, Pass], [Pass, Pass, Pass], [Pass, Pass, Pass], [Pass],
       [Pass, Pass, Pass], [Pass, Pass, Pass], [Pass, Pass],
       map (\<lambda>a. if EVP_get_digestbyname p a \<or> EVP_get_cipherbyname p a
                then Pass else Skipped) algorithms @ [Pass],
       [if OPENSSL_CONF p \<noteq> None then Pass else Skipped,
        if FIPS_mode p = 1 then Pass else Skipped],
       [Pass]]"
    using r md v
    by (simp add: tests_def test9_entries available_def)
       (simp add: test1_def test2_def test3_def test4_def test5_def test6_def test7_def
          test8_def test10_def test11_def emit_def Let_def upt_8 split: option.split)
  finally have en: "map entries (report (fst (main p))) =
      [[Pass], [Pass, Pass, Pass], [Pass, Pass, Pass], [Pass, Pass, Pass], [Pass],
       [Pass, Pass, Pass], [Pass, Pass, Pass], [Pass, Pass],
       map (\<lambda>a. if EVP_get_digestbyname p a \<or> EVP_get_cipherbyname p a
                then Pass else Skipped) algorithms @ [Pass],
       [if OPENSSL_CONF p \<noteq> None then Pass else Skipped,
        if FIPS_mode p = 1 then Pass else Skipped],
       [Pass]]" .
  have c: "calls (fst (test1 p)) = []"
    "calls (fst (test2 p)) = [Call ''SSL_library_init'', Call ''SSL_load_error_strings'',
        Call ''OpenSSL_add_all_algorithms'']"
    "calls (fst (test3 p)) = []"
    "calls (fst (test4 p)) = [Call ''RAND_bytes'']"
    "calls (fst (test5 p)) = [Call ''ERR_load_crypto_strings'', Call ''ERR_load_SSL_strings'',
        New MD_CTX (EVP_MD_CTX_new p 0)] @ (if EVP_MD_CTX_new p 0 then [Free MD_CTX] else [])"
    "calls (fst (test6 p)) = [New BIO True, Call ''BIO_write'', Free BIO]"
    "calls (fst (test7 p)) = [New SSL_CTX True, Free SSL_CTX]"
    "calls (fst (test8 p)) = [New MD_CTX True, Free MD_CTX]"
    "calls (fst (test10 p)) = []"
    "calls (fst (test11 p)) = [Call ''EVP_cleanup'', Call ''ERR_free_strings'']"
    using r md v
    by (simp_all add: calls_def test1_def test2_def test3_def test4_def test5_def test6_def
        test7_def test8_def test10_def test11_def emit_def Let_def upt_8 split: option.split)
  have "calls banner = []" "calls all_passed = []"
    by (simp_all add: calls_def banner_def all_passed_def)
  then have ca: "calls (fst (main p)) =
      [Call ''SSL_library_init'', Call ''SSL_load_error_strings'',
       Call ''OpenSSL_add_all_algorithms'', Call ''RAND_bytes'',
       Call ''ERR_load_crypto_strings'', Call ''ERR_load_SSL_strings'',
       New MD_CTX (EVP_MD_CTX_new p 0)]
      @ (if EVP_MD_CTX_new p 0 then [Free MD_CTX] else [])
      @ [New BIO True, Call ''BIO_write'', Free BIO,
         New SSL_CTX True, Free SSL_CTX,
         New MD_CTX True, Free MD_CTX,
         Call ''EVP_cleanup'', Call ''ERR_free_strings'']"
    by (simp add: tr tests_def calls_append c calls_test9)
  from req tr cat en ca z show ?thesis by (intro conjI)
qed

text \<open>A library on which three of the eight names do not resolve.\<close>

theorem no_failure_exit_zero_witness:
  "map outcome (report (fst (main five_of_eight)))
     = [Pass, Pass, Pass, Pass, Pass, Pass, Pass, Pass, Pass, Pass, Pass] \<and>
   entries (report (fst (main five_of_eight)) ! 8)
     = [Pass, Pass, Pass, Pass, Skipped, Skipped, Skipped, Pass, Pass] \<and>
   map category (report (fst (main five_of_eight))) = categories \<and>
   calls (fst (main five_of_eight)) =
     [Call ''SSL_library_init'', Call ''SSL_load_error_strings'',
      Call ''OpenSSL_add_all_algorithms'', Call ''RAND_bytes'',
      Call ''ERR_load_crypto_strings'', Call ''ERR_load_SSL_strings'',
      New MD_CTX True, Free MD_CTX, New BIO True, Call ''BIO_write'', Free BIO,
      New SSL_CTX True, Free SSL_CTX, New MD_CTX True, Free MD_CTX,
      Call ''EVP_cleanup'', Call ''ERR_free_strings''] \<and>
   snd (main five_of_eight) = 0"
proof -
  have "\<forall>r \<in> set (report (fst (main five_of_eight))).
          outcome r \<in> set (map outcome (report (fst (main five_of_eight))))"
    by simp
  then have "\<forall>r \<in> set (report (fst (main five_of_eight))).
          outcome r \<in> set [Pass, Pass, Pass, Pass, Pass, Pass, Pass, Pass, Pass, Pass, Pass]"
    by (simp only: run_five_of_eight)
  then have a: "\<forall>r \<in> set (report (fst (main five_of_eight))). outcome r \<noteq> Fail"
    by auto
  have m: "EVP_MD_CTX_new five_of_eight 0"
    by (simp add: five_of_eight_def full_provider_def)
  from no_failure_exit_zero [OF a]
  have "map category (report (fst (main five_of_eight))) = categories"
    and "calls (fst (main five_of_eight)) =
      [Call ''SSL_library_init'', Call ''SSL_load_error_strings'',
       Call ''OpenSSL_add_all_algorithms'', Call ''RAND_bytes'',
       Call ''ERR_load_crypto_strings'', Call ''ERR_load_SSL_strings'',
       New MD_CTX (EVP_MD_CTX_new five_of_eight 0)]
      @ (if EVP_MD_CTX_new five_of_eight 0 then [Free MD_CTX] else [])
      @ [New BIO True, Call ''BIO_write'', Free BIO,
         New SSL_CTX True, Free SSL_CTX,
         New MD_CTX True, Free MD_CTX,
         Call ''EVP_cleanup'', Call ''ERR_free_strings'']"
    and "snd (main five_of_eight) = 0"
    by blast+
  then show ?thesis using m by (simp add: run_five_of_eight)
qed
section \<open>Properties of the fixture\<close>

declare fibonacci.simps [simp del]

lemma sint_sub_small:
  fixes n :: cint
  assumes "\<not> n \<le>s 1" and "k = 1 \<or> k = 2"
  shows "sint (n - word_of_int k) = sint n - k"
proof -
  have b: "sint n < 2 ^ 31" using sint_lt [of n] by simp
  have a: "1 < sint n" using assms(1) by (simp add: word_sle_eq)
  have "sint (n - word_of_int k) = signed_take_bit 31 (sint n - k)"
    using assms(2) by (auto simp: sint_word_ariths)
  also have "\<dots> = sint n - k"
    using a b assms(2) by (intro signed_take_bit_int_eq_self) auto
  finally show ?thesis .
qed

lemma fib_iter_eq: "fib_iter n (int (fib k)) (int (fib (Suc k))) = int (fib (n + k))"
proof (induction n arbitrary: k)
  case 0 show ?case by simp
next
  case (Suc n)
  have "fib_iter (Suc n) (int (fib k)) (int (fib (Suc k)))
      = fib_iter n (int (fib (Suc k))) (int (fib (Suc (Suc k))))"
    by (simp add: add.commute)
  also have "\<dots> = int (fib (n + Suc k))" by (rule Suc.IH)
  finally show ?case by simp
qed

lemma fib_iter_num: "fib_iter (numeral k) a b = fib_iter (pred_numeral k) b (a + b)"
  by (simp add: numeral_eq_Suc)

lemma fib_by_iter: "int (fib n) = fib_iter n 0 1"
  using fib_iter_eq [of n 0] by simp

lemma fib_mono_Suc: "fib n \<le> fib (Suc n)"
  by (induction n rule: fib.induct) simp_all

lemma fib_mono: "m \<le> n \<Longrightarrow> fib m \<le> fib n"
proof (induction n)
  case 0 then show ?case by simp
next
  case (Suc n)
  show ?case
  proof (cases "m = Suc n")
    case True then show ?thesis by simp
  next
    case False
    with Suc.prems have "m \<le> n" by simp
    then have "fib m \<le> fib n" by (rule Suc.IH)
    also have "\<dots> \<le> fib (Suc n)" by (rule fib_mono_Suc)
    finally show ?thesis .
  qed
qed

lemma fib_46: "int (fib 46) = 1836311903"
  by (simp add: fib_by_iter fib_iter_num)

lemma fib_47: "int (fib 47) = 2971215073"
  by (simp add: fib_by_iter fib_iter_num)

lemma fib_rec: "2 \<le> k \<Longrightarrow> fib k = fib (k - 1) + fib (k - 2)"
proof -
  assume "2 \<le> k"
  then obtain j where "k = Suc (Suc j)" by (metis add_2_eq_Suc le_Suc_ex)
  then show ?thesis by simp
qed

lemma sint_01:
  fixes n :: cint
  assumes "sint n = 0 \<or> sint n = 1"
  shows "n = 0 \<or> n = 1"
proof -
  from assms show ?thesis
  proof
    assume "sint n = 0"
    then have "sint n = sint (0::cint)" by simp
    then have "n = 0" by (rule signed_word_eqI)
    then show ?thesis ..
  next
    assume "sint n = 1"
    then have "sint n = sint (1::cint)" by simp
    then have "n = 1" by (rule signed_word_eqI)
    then show ?thesis ..
  qed
qed

lemma fibonacci_mod:
  "0 \<le>s n \<Longrightarrow> fibonacci n = word_of_nat (fib (nat (sint n)))"
proof (induction n rule: fibonacci.induct)
  case (1 n)
  show ?case
  proof (cases "n \<le>s 1")
    case True
    with "1.prems" have "sint n = 0 \<or> sint n = 1" by (auto simp: word_sle_eq)
    then have "n = 0 \<or> n = 1" by (rule sint_01)
    then show ?thesis
      by (auto simp: fibonacci.simps [of 0] fibonacci.simps [of 1] word_sle_eq)
  next
    case False
    have s1: "sint (n - 1) = sint n - 1" using sint_sub_small [OF False, of 1] by simp
    have s2: "sint (n - 2) = sint n - 2" using sint_sub_small [OF False, of 2] by simp
    from False have big: "2 \<le> sint n" by (simp add: word_sle_eq)
    have p1: "0 \<le>s n - 1" and p2: "0 \<le>s n - 2" using s1 s2 big by (simp_all add: word_sle_eq)
    have "fibonacci n = fibonacci (n - 1) + fibonacci (n - 2)"
      using False by (simp add: fibonacci.simps [of n])
    also have "\<dots> = word_of_nat (fib (nat (sint n) - 1)) + word_of_nat (fib (nat (sint n) - 2))"
      using "1.IH"(1) [OF False p1] "1.IH"(2) [OF False p2] s1 s2 big
      by (simp add: nat_diff_distrib')
    also have "\<dots> = word_of_nat (fib (nat (sint n)))"
      using fib_rec [of "nat (sint n)"] big by simp
    finally show ?thesis .
  qed
qed

lemma fibonacci_exact:
  assumes "0 \<le>s n" and "n \<le>s 46"
  shows "sint (fibonacci n) = int (fib (nat (sint n)))"
proof -
  from assms have r: "0 \<le> sint n" "sint n \<le> 46" by (simp_all add: word_sle_eq)
  then have "fib (nat (sint n)) \<le> fib 46" by (intro fib_mono) simp
  then have le: "int (fib (nat (sint n))) \<le> 1836311903" using fib_46 by linarith
  have "sint (fibonacci n) = sint (word_of_nat (fib (nat (sint n))) :: cint)"
    using fibonacci_mod [OF assms(1)] by simp
  also have "\<dots> = signed_take_bit 31 (int (fib (nat (sint n))))"
    by (simp add: signed_of_nat)
  also have "\<dots> = int (fib (nat (sint n)))"
    using le by (intro signed_take_bit_int_eq_self) auto
  finally show ?thesis .
qed

text \<open>
  Claim C9, as amended. \<open>fibonacci\<close> is a total function (its recursion was shown to
  terminate on every 32-bit input where it was defined). It returns \<open>n\<close> unchanged for
  every \<open>n \<le> 1\<close>, negative ones included, and \<open>fibonacci (n - 1) + fibonacci (n - 2)\<close>
  for every \<open>n \<ge> 2\<close>. On a non-negative input it is the Fibonacci number of \<open>n\<close> modulo
  \<open>2 ^ 32\<close>, and for \<open>0 \<le> n \<le> 46\<close> the Fibonacci number itself.
\<close>

theorem fibonacci_spec:
  "(n \<le>s 1 \<longrightarrow> fibonacci n = n) \<and>
   (2 \<le>s n \<longrightarrow> fibonacci n = fibonacci (n - 1) + fibonacci (n - 2)) \<and>
   (0 \<le>s n \<longrightarrow> fibonacci n = word_of_nat (fib (nat (sint n)))) \<and>
   (0 \<le>s n \<and> n \<le>s 46 \<longrightarrow> sint (fibonacci n) = int (fib (nat (sint n))))"
proof (intro conjI impI)
  assume "n \<le>s 1" then show "fibonacci n = n" by (simp add: fibonacci.simps [of n])
next
  assume "2 \<le>s n"
  then have "\<not> n \<le>s 1" by (simp add: word_sle_eq)
  then show "fibonacci n = fibonacci (n - 1) + fibonacci (n - 2)"
    by (simp add: fibonacci.simps [of n])
next
  assume "0 \<le>s n" then show "fibonacci n = word_of_nat (fib (nat (sint n)))"
    by (rule fibonacci_mod)
next
  assume "0 \<le>s n \<and> n \<le>s 46"
  then show "sint (fibonacci n) = int (fib (nat (sint n)))"
    using fibonacci_exact by blast
qed

text \<open>The values the fixture's \<^verbatim>\<open>main\<close> prints last, and a negative input.\<close>

theorem fibonacci_spec_witness:
  "(9::cint) \<le>s 46 \<and> 0 \<le>s (9::cint) \<and> sint (fibonacci 9) = 34 \<and> fibonacci (- 5) = - 5
   \<and> fibonacci 2 = fibonacci (2 - 1) + fibonacci (2 - 2)"
proof -
  have f: "int (fib 9) = 34" by (simp add: fib_by_iter fib_iter_num)
  have r: "(9::cint) \<le>s 46" "0 \<le>s (9::cint)" "(- 5 :: cint) \<le>s 1" "2 \<le>s (2::cint)"
    by (simp_all add: word_sle_eq)
  have a: "sint (fibonacci 9) = int (fib (nat (sint (9::cint))))"
    using fibonacci_spec [of 9] r by blast
  have b: "fibonacci (- 5) = - 5"
    using fibonacci_spec [of "- 5"] r by blast
  have c: "fibonacci 2 = fibonacci (2 - 1) + fibonacci (2 - 2)"
    using fibonacci_spec [of 2] r by blast
  from a f have "sint (fibonacci 9) = 34" by simp
  with r b c show ?thesis by blast
qed

text \<open>
  The 47th Fibonacci number, 2971215073, does not fit a 32-bit \<^verbatim>\<open>int\<close>: there the
  function's value is not the number of the sequence.
\<close>

theorem fibonacci_overflow_counterexample:
  "0 \<le>s (47::cint) \<and> sint (fibonacci 47) \<noteq> int (fib (nat (sint (47::cint))))"
proof -
  have "sint (fibonacci 47) = sint (word_of_int (int (fib 47)) :: cint)"
    using fibonacci_mod [of 47] by (simp add: word_sle_eq)
  also have "\<dots> = - 1323752223" by (simp add: fib_47)
  finally show ?thesis by (simp add: fib_47 word_sle_eq)
qed

text \<open>
  Claim C10. \<open>add\<close> returns the mathematical sum and \<open>multiply\<close> the mathematical
  product whenever that value lies in the 32-bit signed range; in general both are the
  result modulo \<open>2 ^ 32\<close>; both are commutative.
\<close>

theorem add_multiply_spec:
  "(- (2 ^ 31) \<le> sint a + sint b \<and> sint a + sint b < 2 ^ 31
      \<longrightarrow> sint (add a b) = sint a + sint b) \<and>
   (- (2 ^ 31) \<le> sint a * sint b \<and> sint a * sint b < 2 ^ 31
      \<longrightarrow> sint (multiply a b) = sint a * sint b) \<and>
   uint (add a b) = (uint a + uint b) mod 2 ^ 32 \<and>
   uint (multiply a b) = (uint a * uint b) mod 2 ^ 32 \<and>
   add a b = add b a \<and> multiply a b = multiply b a"
proof (intro conjI impI)
  assume "- (2 ^ 31) \<le> sint a + sint b \<and> sint a + sint b < 2 ^ 31"
  then have "signed_take_bit 31 (sint a + sint b) = sint a + sint b"
    by (intro signed_take_bit_int_eq_self) auto
  then show "sint (add a b) = sint a + sint b"
    by (simp add: add_def sint_word_ariths)
next
  assume "- (2 ^ 31) \<le> sint a * sint b \<and> sint a * sint b < 2 ^ 31"
  then have "signed_take_bit 31 (sint a * sint b) = sint a * sint b"
    by (intro signed_take_bit_int_eq_self) auto
  then show "sint (multiply a b) = sint a * sint b"
    by (simp add: multiply_def sint_word_ariths)
next
  show "uint (add a b) = (uint a + uint b) mod 2 ^ 32"
    by (simp add: add_def uint_word_ariths)
next
  show "uint (multiply a b) = (uint a * uint b) mod 2 ^ 32"
    by (simp add: multiply_def uint_word_ariths)
next
  show "add a b = add b a" by (simp add: add_def add.commute)
next
  show "multiply a b = multiply b a" by (simp add: multiply_def mult.commute)
qed

text \<open>The call of the fixture's \<^verbatim>\<open>main\<close>: \<open>a = 10\<close>, \<open>b = 20\<close>.\<close>

theorem add_multiply_spec_witness:
  "sint (add 10 20) = 30 \<and> sint (multiply 10 20) = 200"
proof -
  have "sint (add 10 20) = sint (10::cint) + sint (20::cint)"
    by (rule add_multiply_spec [of 10 20, THEN conjunct1, rule_format]) simp
  moreover have "sint (multiply 10 20) = sint (10::cint) * sint (20::cint)"
    by (rule add_multiply_spec [of 10 20, THEN conjunct2, THEN conjunct1, rule_format]) simp
  ultimately show ?thesis by simp
qed

end
